theory Spec2Isabelle
  imports Complex_Main "HOL-Library.Word" "HOL-Library.Log_Nat"
begin

section \<open>JavaScript numbers\<close>

text \<open>
  A value of the TypeScript type \<open>number\<close> is an IEEE 754 double. A finite double other
  than \<open>-0\<close> is \<open>Num x\<close>, with \<open>x\<close> the real it denotes (\<open>Num 0\<close> is \<open>+0\<close>); \<open>-0\<close>, the two
  infinities and \<open>NaN\<close> are constructors of their own. An operation computes the exact
  real result and rounds it to the nearest double, a tie going to the even significand.
\<close>

datatype number = Num real | NegZero | PosInfinity | NegInfinity | NaN

subsection \<open>Rounding to the nearest double\<close>

text \<open>The binary exponent of a positive real: the \<open>e\<close> with \<open>2^e \<le> x < 2^(e+1)\<close>.\<close>

definition binExp :: "real \<Rightarrow> int" where
  "binExp x = (if 1 \<le> x then bitlen \<lfloor>x\<rfloor> - 1 else - bitlen (\<lceil>1 / x\<rceil> - 1))"

definition roundTiesToEven :: "real \<Rightarrow> int" where
  "roundTiesToEven y =
     (let f = \<lfloor>y\<rfloor>; r = y - of_int f
      in if r < 1 / 2 then f else if 1 / 2 < r then f + 1 else if even f then f else f + 1)"

text \<open>
  The distance of the doubles around \<open>x\<close>: 52 binary places below the exponent of \<open>x\<close>,
  and \<open>2^-1074\<close> for the subnormal numbers.
\<close>

definition quantum :: "real \<Rightarrow> real" where
  "quantum x = 2 powi (max (binExp \<bar>x\<bar>) (- 1022) - 52)"

definition roundDouble :: "real \<Rightarrow> real" where
  "roundDouble x = (if x = 0 then 0 else of_int (roundTiesToEven (x / quantum x)) * quantum x)"

text \<open>
  The double that an exact result is rounded to: an infinity from \<open>2^1024\<close> on, and a zero
  with the sign of the exact result where it rounds to 0.
\<close>

definition fl :: "real \<Rightarrow> number" where
  "fl x =
     (let v = roundDouble x
      in if 2 ^ 1024 \<le> v then PosInfinity
         else if v \<le> - (2 ^ 1024) then NegInfinity
         else if v = 0 then (if x < 0 then NegZero else Num 0)
         else Num v)"

subsection \<open>The operators\<close>

fun isNaN :: "number \<Rightarrow> bool" where
  "isNaN NaN = True"
| "isNaN _ = False"

fun isInfinite :: "number \<Rightarrow> bool" where
  "isInfinite PosInfinity = True"
| "isInfinite NegInfinity = True"
| "isInfinite _ = False"

fun isZero :: "number \<Rightarrow> bool" where
  "isZero (Num a) = (a = 0)"
| "isZero NegZero = True"
| "isZero _ = False"

text \<open>The sign bit.\<close>

fun isNegative :: "number \<Rightarrow> bool" where
  "isNegative (Num a) = (a < 0)"
| "isNegative NegZero = True"
| "isNegative NegInfinity = True"
| "isNegative _ = False"

fun valueOf :: "number \<Rightarrow> real" where
  "valueOf (Num a) = a"
| "valueOf _ = 0"

fun finiteValue :: "number \<Rightarrow> real option" where
  "finiteValue (Num a) = Some a"
| "finiteValue NegZero = Some 0"
| "finiteValue _ = None"

definition signedZero :: "bool \<Rightarrow> number" where
  "signedZero negative = (if negative then NegZero else Num 0)"

definition signedInfinity :: "bool \<Rightarrow> number" where
  "signedInfinity negative = (if negative then NegInfinity else PosInfinity)"

text \<open>The operators \<open>/\<close>, \<open>*\<close> and \<open>+\<close> of the language.\<close>

definition js_div :: "number \<Rightarrow> number \<Rightarrow> number" where
  "js_div a b =
     (if isNaN a \<or> isNaN b then NaN
      else if isInfinite a
        then (if isInfinite b then NaN else signedInfinity (isNegative a \<noteq> isNegative b))
      else if isInfinite b then signedZero (isNegative a \<noteq> isNegative b)
      else if isZero b
        then (if isZero a then NaN else signedInfinity (isNegative a \<noteq> isNegative b))
      else if isZero a then signedZero (isNegative a \<noteq> isNegative b)
      else fl (valueOf a / valueOf b))"

definition js_mul :: "number \<Rightarrow> number \<Rightarrow> number" where
  "js_mul a b =
     (if isNaN a \<or> isNaN b then NaN
      else if isInfinite a \<or> isInfinite b
        then (if isZero a \<or> isZero b then NaN else signedInfinity (isNegative a \<noteq> isNegative b))
      else if isZero a \<or> isZero b then signedZero (isNegative a \<noteq> isNegative b)
      else fl (valueOf a * valueOf b))"

definition js_add :: "number \<Rightarrow> number \<Rightarrow> number" where
  "js_add a b =
     (if isNaN a \<or> isNaN b then NaN
      else if isInfinite a
        then (if isInfinite b \<and> isNegative a \<noteq> isNegative b then NaN else a)
      else if isInfinite b then b
      else if isZero a \<and> isZero b then signedZero (isNegative a \<and> isNegative b)
      else if valueOf a + valueOf b = 0 then Num 0
      else fl (valueOf a + valueOf b))"

text \<open>
  The comparisons \<open><\<close>, \<open>>\<close> and \<open>>=\<close>: false when an operand is \<open>NaN\<close>; the two zeros
  are equal.
\<close>

fun tier :: "number \<Rightarrow> int" where
  "tier NegInfinity = - 1"
| "tier PosInfinity = 1"
| "tier _ = 0"

definition js_less :: "number \<Rightarrow> number \<Rightarrow> bool" where
  "js_less a b \<longleftrightarrow>
     \<not> isNaN a \<and> \<not> isNaN b
     \<and> (tier a < tier b \<or> (tier a = 0 \<and> tier b = 0 \<and> valueOf a < valueOf b))"

definition js_greater :: "number \<Rightarrow> number \<Rightarrow> bool" where
  "js_greater a b \<longleftrightarrow> js_less b a"

definition js_greater_eq :: "number \<Rightarrow> number \<Rightarrow> bool" where
  "js_greater_eq a b \<longleftrightarrow> \<not> isNaN a \<and> \<not> isNaN b \<and> \<not> js_less a b"

text \<open>
  \<open>Math.round\<close>: the integer closest to the argument; of two integers equally close,
  the one closer to \<open>+\<infinity>\<close>; \<open>-0\<close> for an argument from \<open>-0.5\<close> up to \<open>-0\<close>.
\<close>

fun Math_round :: "number \<Rightarrow> number" where
  "Math_round (Num a) = (if - 1 / 2 \<le> a \<and> a < 0 then NegZero else Num (of_int \<lfloor>a + 1 / 2\<rfloor>))"
| "Math_round NegZero = NegZero"
| "Math_round PosInfinity = PosInfinity"
| "Math_round NegInfinity = NegInfinity"
| "Math_round NaN = NaN"

section \<open>estimateHiddenCharacters\<close>

text \<open>The test \<open>referenceTextLength === 0\<close> holds for both zeros.\<close>

definition estimateHiddenCharacters :: "number \<Rightarrow> number \<Rightarrow> number \<Rightarrow> number" where
  "estimateHiddenCharacters redactionW referenceW referenceTextLength =
     (if isZero referenceTextLength then Num 0
      else
        let avgCharWidth = js_div referenceW referenceTextLength
        in Math_round (js_div redactionW avgCharWidth))"

text \<open>
  Rounding half away from zero, as the specification words it: the convention the
  rounding of \<open>estimateHiddenCharacters\<close> is compared with.
\<close>

definition roundHalfAwayFromZero :: "real \<Rightarrow> int" where
  "roundHalfAwayFromZero a = (if a < 0 then - \<lfloor>- a + 1 / 2\<rfloor> else \<lfloor>a + 1 / 2\<rfloor>)"

section \<open>The data model\<close>

text \<open>
  \<open>Rect\<close> and \<open>Profile\<close> of \<open>types.ts\<close>. The fields of a rectangle are numbers: whole
  in a rectangle the detector returns, fractions in one the user draws.
\<close>

record Rect =
  x :: number
  y :: number
  w :: number
  h :: number

record Profile =
  profile_id :: string
  name :: string
  email :: string
  role :: string
  clearance :: string

text \<open>
  A pixel of a canvas: four 8-bit channels. A canvas element has a width, a height and a
  bitmap, which only the positions inside \<open>[0, width) \<times> [0, height)\<close> belong to;
  \<open>context2d\<close> is whether \<open>getContext('2d')\<close> gives a context (it may give \<open>null\<close>).
\<close>

type_synonym byte = "8 word"

record RGBA =
  red :: byte
  green :: byte
  blue :: byte
  alpha :: byte

record HTMLCanvasElement =
  width :: nat
  height :: nat
  bitmap :: "int \<Rightarrow> int \<Rightarrow> RGBA"
  context2d :: bool

text \<open>
  The object \<open>getImageData\<close> returns; the code reads its \<open>data\<close> only, the array of
  the channels of the pixels in row-major order, four per pixel.
\<close>

record ImageData =
  data :: "byte list"

text \<open>The exceptions of the platform that the calls of the code can raise.\<close>

datatype JSException = IndexSizeError | InvalidStateError | TypeError

definition transparentBlack :: RGBA where
  "transparentBlack = \<lparr>red = 0, green = 0, blue = 0, alpha = 0\<rparr>"

definition pixelAt :: "HTMLCanvasElement \<Rightarrow> int \<Rightarrow> int \<Rightarrow> RGBA" where
  "pixelAt canvas px py =
     (if 0 \<le> px \<and> px < int (width canvas) \<and> 0 \<le> py \<and> py < int (height canvas)
      then bitmap canvas px py
      else transparentBlack)"

definition channels :: "RGBA \<Rightarrow> byte list" where
  "channels p = [red p, green p, blue p, alpha p]"

text \<open>The positions of a rectangle of \<open>cols \<times> rows\<close> pixels, row by row.\<close>

definition sourceRectangle :: "int \<Rightarrow> int \<Rightarrow> nat \<Rightarrow> nat \<Rightarrow> (int \<times> int) list" where
  "sourceRectangle x0 y0 cols rows =
     concat (map (\<lambda>row. map (\<lambda>col. (x0 + int col, y0 + int row)) [0..<cols]) [0..<rows])"

text \<open>
  \<open>CanvasRenderingContext2D.getImageData(sx, sy, sw, sh)\<close>, a function of the platform,
  modelled after the HTML Standard. Its steps, on arguments that are longs: an
  \<open>IndexSizeError\<close> when \<open>sw\<close> or \<open>sh\<close> is 0; otherwise the image has \<open>|sw| \<times> |sh|\<close>
  pixels, those of the source rectangle with the corners \<open>(sx, sy)\<close> and
  \<open>(sx + sw, sy + sh)\<close>, and a pixel of the rectangle outside the bitmap is transparent
  black.
\<close>

definition getImageDataSteps ::
  "HTMLCanvasElement \<Rightarrow> int \<Rightarrow> int \<Rightarrow> int \<Rightarrow> int \<Rightarrow> JSException + ImageData" where
  "getImageDataSteps canvas sx sy sw sh =
     (if sw = 0 \<or> sh = 0 then Inl IndexSizeError
      else
        let x0 = (if sw < 0 then sx + sw else sx);
            y0 = (if sh < 0 then sy + sh else sy)
        in Inr \<lparr>data = concat (map (\<lambda>(px, py). channels (pixelAt canvas px py))
                               (sourceRectangle x0 y0 (nat \<bar>sw\<bar>) (nat \<bar>sh\<bar>)))\<rparr>)"

text \<open>
  The arguments are declared \<open>[EnforceRange] long\<close>: a number is cut to its integer part
  (towards zero); a \<open>NaN\<close>, an infinity or an integer part outside 32 bits is a
  \<open>TypeError\<close>, raised before the steps run.
\<close>

definition integerPart :: "real \<Rightarrow> int" where
  "integerPart a = (if 0 \<le> a then \<lfloor>a\<rfloor> else \<lceil>a\<rceil>)"

fun toLong :: "number \<Rightarrow> JSException + int" where
  "toLong (Num a) =
     (if - 2147483648 \<le> integerPart a \<and> integerPart a \<le> 2147483647 then Inr (integerPart a)
      else Inl TypeError)"
| "toLong NegZero = Inr 0"
| "toLong _ = Inl TypeError"

definition getImageData ::
  "HTMLCanvasElement \<Rightarrow> number \<Rightarrow> number \<Rightarrow> number \<Rightarrow> number \<Rightarrow> JSException + ImageData" where
  "getImageData canvas sx sy sw sh =
     (case (toLong sx, toLong sy, toLong sw, toLong sh) of
        (Inr lx, Inr ly, Inr lw, Inr lh) \<Rightarrow> getImageDataSteps canvas lx ly lw lh
      | _ \<Rightarrow> Inl TypeError)"

text \<open>
  The luminance \<open>0.299 * r + 0.587 * g + 0.114 * b\<close> as the code computes it: each
  constant is the double nearest to the decimal, each product and each sum is rounded
  (all of them are finite: no channel exceeds 255).
\<close>

definition luminance :: "byte \<Rightarrow> byte \<Rightarrow> byte \<Rightarrow> real" where
  "luminance r g b =
     roundDouble
       (roundDouble
          (roundDouble (roundDouble (299 / 1000) * real (unat r))
           + roundDouble (roundDouble (587 / 1000) * real (unat g)))
        + roundDouble (roundDouble (114 / 1000) * real (unat b)))"

section \<open>detectRedactionAtPoint\<close>

text \<open>
  The helper \<open>isDark\<close> of \<open>detectRedactionAtPoint\<close>, a closure over the array and the
  size of the canvas, on finite coordinates. An element read beyond the end of the array
  is \<open>undefined\<close>, the luminance is then \<open>NaN\<close> and the comparison false.
\<close>

definition isDark :: "byte list \<Rightarrow> int \<Rightarrow> int \<Rightarrow> real \<Rightarrow> real \<Rightarrow> bool" where
  "isDark dat canvasW canvasH px py =
     (if px < 0 \<or> of_int canvasW \<le> px \<or> py < 0 \<or> of_int canvasH \<le> py then False
      else
        let idx = nat ((\<lfloor>py\<rfloor> * canvasW + \<lfloor>px\<rfloor>) * 4)
        in if idx + 2 < length dat
           then luminance (dat ! idx) (dat ! (idx + 1)) (dat ! (idx + 2)) < 60
           else False)"

text \<open>
  The six scanning loops are of two shapes:
  \<^verbatim>\<open>while (m > 0 && isDark(.. m - 1 ..)) m--\<close> and
  \<^verbatim>\<open>while (m < bound - 1 && isDark(.. m + 1 ..)) m++\<close>.
\<close>

function scanDown :: "(int \<Rightarrow> bool) \<Rightarrow> int \<Rightarrow> int" where
  "scanDown dark m = (if 0 < m \<and> dark (m - 1) then scanDown dark (m - 1) else m)"
  by pat_completeness auto
termination
  by (relation "measure (\<lambda>(dark, m). nat m)") auto

function scanUp :: "(int \<Rightarrow> bool) \<Rightarrow> int \<Rightarrow> int \<Rightarrow> int" where
  "scanUp dark bound m = (if m < bound - 1 \<and> dark (m + 1) then scanUp dark bound (m + 1) else m)"
  by pat_completeness auto
termination
  by (relation "measure (\<lambda>(dark, bound, m). nat (bound - 1 - m))") auto

declare scanDown.simps [simp del] scanUp.simps [simp del]

text \<open>
  Steps 2 to 4 of \<open>detectRedactionAtPoint\<close> and the rectangle they build: the scan of
  the row of the start point, the scan of the column of its centre, the second scan of the
  row of the centre of that column. \<open>dark\<close> is the closure \<open>isDark\<close>; the start point
  is finite here. The bounds are whole numbers below \<open>2^31\<close>, so their differences are
  exact. The sign of a zero is kept as the code keeps it: \<open>Math.floor(-0)\<close> is \<open>-0\<close>, a
  loop decrements only what is above 0, and \<open>-0 - 0\<close> is \<open>-0\<close>; so the \<open>y\<close> of the
  rectangle is \<open>-0\<close> when \<open>startY\<close> is \<open>-0\<close>, and its \<open>x\<close> is \<open>-0\<close> when \<open>startX\<close> is
  \<open>-0\<close> and the first scan to the right does not move, \<open>centerX\<close> being
  \<open>Math.floor((-0 + -0) / 2) = -0\<close> then. A difference \<open>a - a\<close> is \<open>+0\<close>.
\<close>

definition scanlines :: "(real \<Rightarrow> real \<Rightarrow> bool) \<Rightarrow> int \<Rightarrow> int \<Rightarrow> number \<Rightarrow> number \<Rightarrow> Rect" where
  "scanlines dark canvasW canvasH startX startY =
     (let sx = valueOf startX;
          sy = valueOf startY;
          minX = scanDown (\<lambda>i. dark (of_int i) sy) \<lfloor>sx\<rfloor>;
          maxX = scanUp (\<lambda>i. dark (of_int i) sy) canvasW \<lfloor>sx\<rfloor>;
          centerX = (minX + maxX) div 2;
          minY = scanDown (\<lambda>j. dark (of_int centerX) (of_int j)) \<lfloor>sy\<rfloor>;
          maxY = scanUp (\<lambda>j. dark (of_int centerX) (of_int j)) canvasH \<lfloor>sy\<rfloor>;
          centerY = (minY + maxY) div 2;
          refinedMinX = scanDown (\<lambda>i. dark (of_int i) (of_int centerY)) centerX;
          refinedMaxX = scanUp (\<lambda>i. dark (of_int i) (of_int centerY)) canvasW centerX;
          padding = 0
      in \<lparr>x = (if startX = NegZero \<and> maxX = 0 then NegZero
               else Num (of_int (refinedMinX - padding))),
          y = (if startY = NegZero then NegZero else Num (of_int (minY - padding))),
          w = Num (of_int ((refinedMaxX - refinedMinX) + (padding * 2))),
          h = Num (of_int ((maxY - minY) + (padding * 2)))\<rparr>)"

text \<open>
  The result is \<open>Inr None\<close> for \<open>null\<close>, \<open>Inr (Some rect)\<close> for a rectangle and \<open>Inl e\<close>
  for an exception of \<open>getImageData\<close>. The start point is a pair of numbers. The range
  test lets a \<open>NaN\<close> pass, since every comparison with \<open>NaN\<close> is false, and nothing else
  that is not finite. The call \<open>getImageData(0, 0, w, h)\<close> has the width and the height
  of the canvas as arguments, which the platform keeps within 0 to 2147483647, so that
  their conversion cannot fail: the model runs the steps. For a \<open>NaN\<close> coordinate,
  \<open>isDark(startX, startY)\<close> is false: its own range test passes, the index is \<open>NaN\<close>, the
  element read is \<open>undefined\<close>, the luminance \<open>NaN\<close> and the comparison with 60 false.
\<close>

definition detectRedactionAtPoint ::
  "HTMLCanvasElement \<Rightarrow> number \<Rightarrow> number \<Rightarrow> JSException + Rect option" where
  "detectRedactionAtPoint canvas startX startY =
     (if \<not> context2d canvas then Inr None
      else
        let w = int (width canvas);
            h = int (height canvas)
        in
          if js_less startX (Num 0) \<or> js_greater_eq startX (Num (of_int w))
             \<or> js_less startY (Num 0) \<or> js_greater_eq startY (Num (of_int h))
          then Inr None
          else
            case getImageDataSteps canvas 0 0 w h of
              Inl e \<Rightarrow> Inl e
            | Inr imageData \<Rightarrow>
                (case (finiteValue startX, finiteValue startY) of
                   (Some sx, Some sy) \<Rightarrow>
                     let dark = isDark (data imageData) w h in
                     if \<not> dark sx sy then Inr None
                     else
                       let rect = scanlines dark w h startX startY
                       in if js_less (Rect.w rect) (Num 5) \<or> js_less (Rect.h rect) (Num 5)
                          then Inr None
                          else Inr (Some rect)
                 | _ \<Rightarrow> Inr None))"

section \<open>analyzeLazyRedaction\<close>

text \<open>
  The loop \<^verbatim>\<open>for (i = 0; i < data.length; i += 4)\<close> over the array, four elements a
  step. Where the array ends inside a step, the elements missing are \<open>undefined\<close>: with a
  channel missing the luminance is \<open>NaN\<close> and the pixel is not counted.
\<close>

fun countNonBlack :: "byte list \<Rightarrow> nat" where
  "countNonBlack (r # g # b # a # rest) =
     (if 30 < luminance r g b \<and> luminance r g b < 250 then 1 else 0) + countNonBlack rest"
| "countNonBlack [r, g, b] = (if 30 < luminance r g b \<and> luminance r g b < 250 then 1 else 0)"
| "countNonBlack _ = 0"

text \<open>
  \<open>totalPixels\<close> is the product of the two fields as they are, not cut to their integer
  parts; \<open>0.05\<close> is the double nearest to it.
\<close>

definition analyzeLazyRedaction :: "HTMLCanvasElement \<Rightarrow> Rect \<Rightarrow> JSException + bool" where
  "analyzeLazyRedaction canvas rect =
     (if \<not> context2d canvas then Inr False
      else
        case getImageData canvas (x rect) (y rect) (w rect) (h rect) of
          Inl e \<Rightarrow> Inl e
        | Inr imageData \<Rightarrow>
            let nonBlackPixels = countNonBlack (data imageData);
                totalPixels = js_mul (w rect) (h rect)
            in Inr (js_greater (js_div (Num (real nonBlackPixels)) totalPixels)
                      (Num (roundDouble (5 / 100)))))"

section \<open>The vocabulary of the claims\<close>

definition pixelLuminance :: "RGBA \<Rightarrow> real" where
  "pixelLuminance p = luminance (red p) (green p) (blue p)"

text \<open>The luminance of the specification, \<open>0.299 R + 0.587 G + 0.114 B\<close>, without rounding.\<close>

definition exactLuminance :: "RGBA \<Rightarrow> real" where
  "exactLuminance p =
     299 / 1000 * real (unat (red p)) + 587 / 1000 * real (unat (green p))
     + 114 / 1000 * real (unat (blue p))"

text \<open>A point of \<open>[0, W) \<times> [0, H)\<close>, and the luminance of the pixel it lies in.\<close>

definition insideCanvas :: "HTMLCanvasElement \<Rightarrow> real \<Rightarrow> real \<Rightarrow> bool" where
  "insideCanvas canvas px py \<longleftrightarrow>
     0 \<le> px \<and> px < real (width canvas) \<and> 0 \<le> py \<and> py < real (height canvas)"

definition probeLuminance :: "HTMLCanvasElement \<Rightarrow> real \<Rightarrow> real \<Rightarrow> real" where
  "probeLuminance canvas px py = pixelLuminance (pixelAt canvas \<lfloor>px\<rfloor> \<lfloor>py\<rfloor>)"

definition darkAt :: "HTMLCanvasElement \<Rightarrow> real \<Rightarrow> real \<Rightarrow> bool" where
  "darkAt canvas px py \<longleftrightarrow> insideCanvas canvas px py \<and> probeLuminance canvas px py < 60"

text \<open>
  The pixels of a box of whole numbers, \<open>bw\<close> columns from \<open>bl\<close> on and \<open>bh\<close> rows from
  \<open>bt\<close> on, and those of a rectangle with finite fields.
\<close>

definition insideBox :: "int \<Rightarrow> int \<Rightarrow> int \<Rightarrow> int \<Rightarrow> int \<Rightarrow> int \<Rightarrow> bool" where
  "insideBox bl bt bw bh px py \<longleftrightarrow> bl \<le> px \<and> px < bl + bw \<and> bt \<le> py \<and> py < bt + bh"

definition insideRect :: "Rect \<Rightarrow> int \<Rightarrow> int \<Rightarrow> bool" where
  "insideRect r px py =
     (case (finiteValue (x r), finiteValue (y r), finiteValue (w r), finiteValue (h r)) of
        (Some rx, Some ry, Some rw, Some rh) \<Rightarrow>
          rx \<le> of_int px \<and> of_int px < rx + rw \<and> ry \<le> of_int py \<and> of_int py < ry + rh
      | _ \<Rightarrow> False)"

text \<open>
  The canvas shows one solid dark box, which lies inside it, and nothing dark around it:
  so a canvas with a box of luminance 0 on a background of luminance 255.
\<close>

definition solidDarkBox :: "HTMLCanvasElement \<Rightarrow> int \<Rightarrow> int \<Rightarrow> int \<Rightarrow> int \<Rightarrow> bool" where
  "solidDarkBox canvas bl bt bw bh \<longleftrightarrow>
     0 \<le> bl \<and> 0 \<le> bt \<and> 0 < bw \<and> 0 < bh
     \<and> bl + bw \<le> int (width canvas) \<and> bt + bh \<le> int (height canvas)
     \<and> (\<forall>px py. 0 \<le> px \<and> px < int (width canvas) \<and> 0 \<le> py \<and> py < int (height canvas) \<longrightarrow>
           (pixelLuminance (bitmap canvas px py) < 60) = insideBox bl bt bw bh px py)"

definition opaque :: "byte \<Rightarrow> byte \<Rightarrow> byte \<Rightarrow> RGBA" where
  "opaque r g b = \<lparr>red = r, green = g, blue = b, alpha = 255\<rparr>"

text \<open>
  A canvas of the given size, white with one black rectangle: the canvas of the example of
  the specification. A canvas of one colour. A canvas that is black but for its first
  column, which is grey.
\<close>

definition blackRectOnWhite :: "nat \<Rightarrow> nat \<Rightarrow> Rect \<Rightarrow> HTMLCanvasElement" where
  "blackRectOnWhite cw ch r =
     \<lparr>width = cw, height = ch,
      bitmap = (\<lambda>px py. if insideRect r px py then opaque 0 0 0 else opaque 255 255 255),
      context2d = True\<rparr>"

definition uniformCanvas :: "nat \<Rightarrow> nat \<Rightarrow> RGBA \<Rightarrow> HTMLCanvasElement" where
  "uniformCanvas cw ch colour =
     \<lparr>width = cw, height = ch, bitmap = (\<lambda>px py. colour), context2d = True\<rparr>"

definition grayColumnOnBlack :: "nat \<Rightarrow> nat \<Rightarrow> HTMLCanvasElement" where
  "grayColumnOnBlack cw ch =
     \<lparr>width = cw, height = ch,
      bitmap = (\<lambda>px py. if px = 0 then opaque 128 128 128 else opaque 0 0 0),
      context2d = True\<rparr>"

text \<open>
  The pixels the classifier counts, in the words of the specification: those inside the
  rectangle whose luminance is above 30 and below 250. The rectangle is taken as
  \<open>getImageData\<close> takes it, each field cut to its integer part. A position of the
  rectangle outside the canvas holds no pixel of the canvas; \<open>pixelAt\<close> is transparent
  black there.
\<close>

definition suspicious :: "RGBA \<Rightarrow> bool" where
  "suspicious p \<longleftrightarrow> 30 < pixelLuminance p \<and> pixelLuminance p < 250"

definition longFields :: "Rect \<Rightarrow> (int \<times> int \<times> int \<times> int) option" where
  "longFields r =
     (case (toLong (x r), toLong (y r), toLong (w r), toLong (h r)) of
        (Inr lx, Inr ly, Inr lw, Inr lh) \<Rightarrow> Some (lx, ly, lw, lh)
      | _ \<Rightarrow> None)"

definition pixelsInside :: "int \<Rightarrow> int \<Rightarrow> int \<Rightarrow> int \<Rightarrow> (int \<times> int) list" where
  "pixelsInside bl bt bw bh =
     concat (map (\<lambda>py. map (\<lambda>px. (px, py)) [bl..bl + bw - 1]) [bt..bt + bh - 1])"

definition suspiciousCount :: "HTMLCanvasElement \<Rightarrow> Rect \<Rightarrow> nat" where
  "suspiciousCount canvas r =
     (case longFields r of
        Some (bl, bt, bw, bh) \<Rightarrow>
          length (filter (\<lambda>(px, py). suspicious (pixelAt canvas px py)) (pixelsInside bl bt bw bh))
      | None \<Rightarrow> 0)"

section \<open>The 2D context\<close>

text \<open>
  The drawing state of a \<open>CanvasRenderingContext2D\<close> that \<open>generateEvidenceImage\<close> uses,
  and the canvas it draws on. A font is kept as its style, its size in pixels and its
  family instead of the CSS string.
\<close>

datatype TextAlign = AlignStart | AlignEnd | AlignLeft | AlignRight | AlignCenter

datatype TextBaseline = Top | Hanging | Middle | Alphabetic | Ideographic | Bottom

record Font =
  fontStyle :: string
  fontSize :: real
  fontFamily :: string

record Context2D =
  ctxCanvas :: HTMLCanvasElement
  fillStyle :: RGBA
  strokeStyle :: RGBA
  lineWidth :: real
  font :: Font
  textAlign :: TextAlign
  textBaseline :: TextBaseline
  path :: "(real \<times> real) list"

text \<open>
  What the code takes from the platform and this repository does not contain:
  whether the canvas made by \<open>document.createElement('canvas')\<close> gives a 2D context, the
  pixels that the glyphs of a text cover when it is drawn at a point with a font, an
  alignment and a baseline, the case mapping of \<open>String.prototype.toUpperCase\<close>, and the
  encoding \<open>toDataURL('image/png')\<close> of a canvas.
\<close>

record Platform =
  newContext2d :: bool
  textPixels :: "Font \<Rightarrow> TextAlign \<Rightarrow> TextBaseline \<Rightarrow> string \<Rightarrow> real \<Rightarrow> real \<Rightarrow> int \<Rightarrow> int \<Rightarrow> bool"
  toUpperCase :: "string \<Rightarrow> string"
  toDataURL :: "HTMLCanvasElement \<Rightarrow> string"

text \<open>
  Painting a region with a colour. Every colour the code paints with is opaque, so the
  colour replaces the pixel.
\<close>

definition paint :: "(int \<Rightarrow> int \<Rightarrow> bool) \<Rightarrow> RGBA \<Rightarrow> Context2D \<Rightarrow> Context2D" where
  "paint region colour ctx =
     ctx\<lparr>ctxCanvas := (ctxCanvas ctx)
       \<lparr>bitmap := (\<lambda>px py. if region px py then colour else bitmap (ctxCanvas ctx) px py)\<rparr>\<rparr>"

text \<open>
  The pixel \<open>(px, py)\<close> is the square from \<open>(px, py)\<close> to \<open>(px + 1, py + 1)\<close>; the pixels
  of a box are the squares inside it.
\<close>

definition boxPixels :: "real \<Rightarrow> real \<Rightarrow> real \<Rightarrow> real \<Rightarrow> int \<Rightarrow> int \<Rightarrow> bool" where
  "boxPixels x1 y1 x2 y2 px py \<longleftrightarrow>
     x1 \<le> of_int px \<and> of_int px + 1 \<le> x2 \<and> y1 \<le> of_int py \<and> of_int py + 1 \<le> y2"

text \<open>
  The statements of the code on the context, as values. \<open>SetFont style size family\<close> is
  the assignment of the string \<open>style SIZEpx "family"\<close> to \<open>font\<close>; the size and the
  point of a text are numbers, since the code computes them from the fields of a
  rectangle.
\<close>

datatype Op =
    SetFillStyle RGBA
  | SetStrokeStyle RGBA
  | SetLineWidth real
  | SetFont string number string
  | SetTextAlign TextAlign
  | SetTextBaseline TextBaseline
  | FillRect real real real real
  | BeginPath
  | MoveTo real real
  | LineTo real real
  | Stroke
  | FillText string number number

text \<open>
  One statement. The assignment of a font that is no font, with a size that is negative
  or not finite, is ignored. \<open>fillRect(x, y, w, h)\<close> paints the box from \<open>(x, y)\<close> to
  \<open>(x + w, y + h)\<close> with the fill style. \<open>stroke()\<close> is modelled for the path the code
  strokes, one horizontal segment: the stroke is centred on the segment, \<open>lineWidth / 2\<close>
  above and below it, with square ends. \<open>fillText\<close> paints the pixels the platform's
  glyphs cover with the fill style, and nothing where a coordinate is not finite.
\<close>

fun exec :: "Platform \<Rightarrow> Context2D \<Rightarrow> Op \<Rightarrow> Context2D" where
  "exec pl ctx (SetFillStyle c) = ctx\<lparr>fillStyle := c\<rparr>"
| "exec pl ctx (SetStrokeStyle c) = ctx\<lparr>strokeStyle := c\<rparr>"
| "exec pl ctx (SetLineWidth l) = ctx\<lparr>lineWidth := l\<rparr>"
| "exec pl ctx (SetFont style px family) =
     (case finiteValue px of
        Some s \<Rightarrow>
          if 0 \<le> s
          then ctx\<lparr>font := \<lparr>fontStyle = style, fontSize = s, fontFamily = family\<rparr>\<rparr>
          else ctx
      | None \<Rightarrow> ctx)"
| "exec pl ctx (SetTextAlign a) = ctx\<lparr>textAlign := a\<rparr>"
| "exec pl ctx (SetTextBaseline b) = ctx\<lparr>textBaseline := b\<rparr>"
| "exec pl ctx (FillRect rx ry rw rh) = paint (boxPixels rx ry (rx + rw) (ry + rh)) (fillStyle ctx) ctx"
| "exec pl ctx BeginPath = ctx\<lparr>path := []\<rparr>"
| "exec pl ctx (MoveTo px py) = ctx\<lparr>path := path ctx @ [(px, py)]\<rparr>"
| "exec pl ctx (LineTo px py) = ctx\<lparr>path := path ctx @ [(px, py)]\<rparr>"
| "exec pl ctx Stroke =
     (case path ctx of
        [(x1, y1), (x2, y2)] \<Rightarrow>
          if y1 = y2
          then paint (boxPixels (min x1 x2) (y1 - lineWidth ctx / 2) (max x1 x2) (y1 + lineWidth ctx / 2))
                 (strokeStyle ctx) ctx
          else ctx
      | _ \<Rightarrow> ctx)"
| "exec pl ctx (FillText s tx ty) =
     (case (finiteValue tx, finiteValue ty) of
        (Some fx, Some fy) \<Rightarrow>
          paint (textPixels pl (font ctx) (textAlign ctx) (textBaseline ctx) s fx fy)
            (fillStyle ctx) ctx
      | _ \<Rightarrow> ctx)"

text \<open>
  \<open>drawImage(image, dx, dy)\<close> with a canvas as the image: an \<open>InvalidStateError\<close> when
  the image has a width or a height of 0 (HTML Standard); otherwise the pixels of the
  image are drawn at \<open>(dx, dy)\<close>. The code draws on a new canvas, which is transparent,
  and there the pixel drawn is the pixel of the image.
\<close>

definition drawImage ::
  "Context2D \<Rightarrow> HTMLCanvasElement \<Rightarrow> int \<Rightarrow> int \<Rightarrow> JSException + Context2D" where
  "drawImage ctx source dx dy =
     (if width source = 0 \<or> height source = 0 then Inl InvalidStateError
      else Inr (ctx\<lparr>ctxCanvas := (ctxCanvas ctx)
             \<lparr>bitmap := (\<lambda>px py.
                  if 0 \<le> px - dx \<and> px - dx < int (width source)
                     \<and> 0 \<le> py - dy \<and> py - dy < int (height source)
                  then bitmap source (px - dx) (py - dy)
                  else bitmap (ctxCanvas ctx) px py)\<rparr>\<rparr>))"

text \<open>The state of a context just made, and \<open>getContext('2d')\<close>.\<close>

definition newContextState :: "HTMLCanvasElement \<Rightarrow> Context2D" where
  "newContextState c =
     \<lparr>ctxCanvas = c, fillStyle = opaque 0 0 0, strokeStyle = opaque 0 0 0, lineWidth = 1,
      font = \<lparr>fontStyle = '''', fontSize = 10, fontFamily = ''sans-serif''\<rparr>,
      textAlign = AlignStart, textBaseline = Alphabetic, path = []\<rparr>"

definition getContext :: "HTMLCanvasElement \<Rightarrow> Context2D option" where
  "getContext c = (if context2d c then Some (newContextState c) else None)"

section \<open>generateEvidenceImage\<close>

text \<open>
  The statements after \<open>drawImage\<close>: the footer, its border, the four lines of text of the
  footer and, when there is a redaction rectangle, the name of the match over it. The
  sums of the height of the canvas and an offset are whole numbers, exact; the size of
  the last font and the centre of the rectangle are computed from its fields in double
  arithmetic.
\<close>

definition footerAndOverlay ::
  "Platform \<Rightarrow> HTMLCanvasElement \<Rightarrow> Rect option \<Rightarrow> Profile \<Rightarrow> Op list" where
  "footerAndOverlay pl originalCanvas redactionRect profile =
     (let oh = real (height originalCanvas);
          cw = real (width originalCanvas)
      in
        [SetFillStyle (opaque 0 0 0),
         FillRect 0 oh cw 150,
         SetStrokeStyle (opaque 0 255 65),
         SetLineWidth 4,
         BeginPath,
         MoveTo 0 oh,
         LineTo cw oh,
         Stroke,
         SetFont ''bold'' (Num 20) ''JetBrains Mono'',
         SetFillStyle (opaque 0 255 65),
         FillText ''UNDACTED ANALYSIS REPORT'' (Num 20) (Num (oh + 40)),
         SetFont '''' (Num 16) ''JetBrains Mono'',
         SetFillStyle (opaque 255 255 255),
         FillText (''SUBJECT MATCH: '' @ toUpperCase pl (name profile)) (Num 20) (Num (oh + 75)),
         FillText (''ROLE: '' @ role profile @ '' | CLEARANCE: '' @ clearance profile)
           (Num 20) (Num (oh + 100)),
         SetFont ''italic'' (Num 12) ''JetBrains Mono'',
         SetFillStyle (opaque 102 102 102),
         FillText ''DISCLAIMER: Hypothetical determination created by AI. Not an official legal document. Educational purposes only.''
           (Num 20) (Num (oh + 135))]
        @ (case redactionRect of
             None \<Rightarrow> []
           | Some r \<Rightarrow>
               [SetFont ''bold'' (js_mul (h r) (Num (roundDouble (7 / 10)))) ''JetBrains Mono'',
                SetFillStyle (opaque 0 255 65),
                SetTextAlign AlignCenter,
                SetTextBaseline Middle,
                FillText (name profile) (js_add (x r) (js_div (w r) (Num 2)))
                  (js_add (y r) (js_div (h r) (Num 2)))]))"

text \<open>
  The canvas \<open>generateEvidenceImage\<close> has drawn when it calls \<open>toDataURL\<close>: \<open>Inr None\<close>
  where the code returns the empty string for want of a context, \<open>Inl e\<close> for an
  exception of \<open>drawImage\<close>.
\<close>

definition evidenceCanvas ::
  "Platform \<Rightarrow> HTMLCanvasElement \<Rightarrow> Rect option \<Rightarrow> Profile
     \<Rightarrow> JSException + HTMLCanvasElement option" where
  "evidenceCanvas pl originalCanvas redactionRect profile =
     (let canvas = \<lparr>width = width originalCanvas,
                     height = height originalCanvas + 150,
                     bitmap = (\<lambda>px py. transparentBlack),
                     context2d = newContext2d pl\<rparr>
      in
        case getContext canvas of
          None \<Rightarrow> Inr None
        | Some ctx \<Rightarrow>
            (case drawImage ctx originalCanvas 0 0 of
               Inl e \<Rightarrow> Inl e
             | Inr ctx' \<Rightarrow>
                 Inr (Some (ctxCanvas (foldl (exec pl) ctx'
                                         (footerAndOverlay pl originalCanvas redactionRect profile))))))"

definition generateEvidenceImage ::
  "Platform \<Rightarrow> HTMLCanvasElement \<Rightarrow> Rect option \<Rightarrow> Profile \<Rightarrow> JSException + string" where
  "generateEvidenceImage pl originalCanvas redactionRect profile =
     (case evidenceCanvas pl originalCanvas redactionRect profile of
        Inl e \<Rightarrow> Inl e
      | Inr None \<Rightarrow> Inr ''''
      | Inr (Some canvas) \<Rightarrow> Inr (toDataURL pl canvas))"

text \<open>
  The pixels that the texts drawn by a list of statements cover, from a state of the
  context on; and those of \<open>generateEvidenceImage\<close>.
\<close>

fun textCovered :: "Platform \<Rightarrow> Context2D \<Rightarrow> Op list \<Rightarrow> int \<Rightarrow> int \<Rightarrow> bool" where
  "textCovered pl ctx [] px py = False"
| "textCovered pl ctx (FillText s tx ty # ops) px py =
     ((case (finiteValue tx, finiteValue ty) of
         (Some fx, Some fy) \<Rightarrow>
           textPixels pl (font ctx) (textAlign ctx) (textBaseline ctx) s fx fy px py
       | _ \<Rightarrow> False)
      \<or> textCovered pl (exec pl ctx (FillText s tx ty)) ops px py)"
| "textCovered pl ctx (op # ops) px py = textCovered pl (exec pl ctx op) ops px py"

definition coveredByText ::
  "Platform \<Rightarrow> HTMLCanvasElement \<Rightarrow> Rect option \<Rightarrow> Profile \<Rightarrow> int \<Rightarrow> int \<Rightarrow> bool" where
  "coveredByText pl originalCanvas redactionRect profile px py =
     textCovered pl (newContextState originalCanvas)
       (footerAndOverlay pl originalCanvas redactionRect profile) px py"

text \<open>
  A platform for the examples: every character of a text is a full box, 0.6 of the font
  size wide and the font size high, and only the letters of ASCII have an upper case.
\<close>

definition boxGlyphs :: Platform where
  "boxGlyphs =
     \<lparr>newContext2d = True,
      textPixels = (\<lambda>f al bl s tx ty px py.
         let wd = 0.6 * fontSize f * real (length s);
             x1 = (if al = AlignCenter then tx - wd / 2 else tx);
             y1 = (if bl = Middle then ty - fontSize f / 2 else ty - fontSize f)
         in x1 \<le> of_int px \<and> of_int px < x1 + wd \<and> y1 \<le> of_int py \<and> of_int py < y1 + fontSize f),
      toUpperCase = map (\<lambda>c. let n = (of_char c :: nat)
                               in if 97 \<le> n \<and> n \<le> 122 then char_of (n - 32) else c),
      toDataURL = (\<lambda>c. ''data:image/png;base64,'')\<rparr>"

definition exampleProfile :: Profile where
  "exampleProfile =
     \<lparr>profile_id = ''7'', name = ''AB'', email = ''ab@example.org'', role = ''Analyst'',
      clearance = ''Level 3''\<rparr>"

section \<open>Properties of the rounding\<close>

lemma two_powi_pos: "0 < (2::real) powi k"
  by simp

lemma two_powi_less_iff: "(2::real) powi a < 2 powi b \<longleftrightarrow> a < b"
proof
  assume l: "(2::real) powi a < 2 powi b"
  show "a < b"
  proof (rule ccontr)
    assume "\<not> a < b"
    then have "(2::real) powi b \<le> 2 powi a"
      by (intro power_int_increasing) auto
    with l show False by simp
  qed
next
  assume "a < b"
  then show "(2::real) powi a < 2 powi b"
    by (intro power_int_strict_increasing) auto
qed

lemma two_powi_le_iff: "(2::real) powi a \<le> 2 powi b \<longleftrightarrow> a \<le> b"
  using two_powi_less_iff [of b a] by (simp add: not_less [symmetric])

lemma two_powi_nat: "0 \<le> k \<Longrightarrow> (2::real) powi k = of_int (2 ^ nat k)"
  by (simp add: power_int_def)

text \<open>\<open>binExp\<close> is the binary exponent.\<close>

lemma binExp_bounds:
  assumes "0 < a"
  shows "2 powi binExp a \<le> a" and "a < 2 powi (binExp a + 1)"
proof -
  have "2 powi binExp a \<le> a \<and> a < 2 powi (binExp a + 1)"
  proof (cases "1 \<le> a")
    case True
    define m where "m = \<lfloor>a\<rfloor>"
    have m: "0 < m" using True by (simp add: m_def)
    have b1: "1 \<le> bitlen m" using m by (simp add: bitlen_alt_def)
    from bitlen_bounds [OF m] have lo: "2 ^ nat (bitlen m - 1) \<le> m" and hi: "m < 2 ^ nat (bitlen m)"
      by auto
    have e: "binExp a = bitlen m - 1" using True by (simp add: binExp_def m_def)
    have "(2::real) powi (bitlen m - 1) = of_int (2 ^ nat (bitlen m - 1))"
      using b1 by (intro two_powi_nat) simp
    also have "\<dots> \<le> of_int m" using lo by (simp only: of_int_le_iff)
    also have "\<dots> \<le> a" by (simp add: m_def)
    finally have A: "2 powi (bitlen m - 1) \<le> a" .
    have "m + 1 \<le> 2 ^ nat (bitlen m)" using hi by simp
    then have "real_of_int (m + 1) \<le> of_int (2 ^ nat (bitlen m))" by (simp only: of_int_le_iff)
    moreover have "a < real_of_int (m + 1)" by (simp add: m_def)
    ultimately have "a < of_int (2 ^ nat (bitlen m))" by linarith
    also have "\<dots> = 2 powi (bitlen m)" using b1 by (intro two_powi_nat [symmetric]) simp
    finally have B: "a < 2 powi (bitlen m - 1 + 1)" by simp
    from A B e show ?thesis by simp
  next
    case False
    define t where "t = 1 / a"
    have t: "1 < t" using False assms by (simp add: t_def)
    define n where "n = \<lceil>t\<rceil>"
    have n: "0 < n - 1" using t unfolding n_def by linarith
    define k where "k = bitlen (n - 1)"
    have k1: "1 \<le> k" using n by (simp add: bitlen_alt_def k_def)
    from bitlen_bounds [OF n] have lo: "2 ^ nat (k - 1) \<le> n - 1" and hi: "n - 1 < 2 ^ nat k"
      by (auto simp: k_def)
    have e: "binExp a = - k" using False by (simp add: binExp_def k_def n_def t_def)
    have "real_of_int (2 ^ nat (k - 1)) \<le> of_int (n - 1)" using lo by (simp only: of_int_le_iff)
    moreover have "real_of_int (n - 1) < t" unfolding n_def by linarith
    ultimately have "real_of_int (2 ^ nat (k - 1)) < t" by linarith
    then have lo': "2 powi (k - 1) < t" using k1 by (simp add: two_powi_nat)
    have "n \<le> 2 ^ nat k" using hi by simp
    then have "real_of_int n \<le> of_int (2 ^ nat k)" by (simp only: of_int_le_iff)
    moreover have "t \<le> real_of_int n" unfolding n_def by linarith
    ultimately have "t \<le> of_int (2 ^ nat k)" by linarith
    then have hi': "t \<le> 2 powi k" using k1 by (simp add: two_powi_nat)
    have a: "a = 1 / t" using assms by (simp add: t_def)
    have "2 powi (- k) = 1 / (2::real) powi k" by (simp add: power_int_minus field_simps)
    also have "\<dots> \<le> 1 / t" using hi' t by (intro divide_left_mono) auto
    finally have A: "2 powi (- k) \<le> a" using a by simp
    have "1 / t < 1 / (2::real) powi (k - 1)"
      using lo' t by (intro divide_strict_left_mono mult_pos_pos) auto
    also have "\<dots> = 2 powi (- k + 1)" by (simp add: power_int_minus flip: power_int_minus field_simps)
    finally have B: "a < 2 powi (- k + 1)" using a by simp
    from A B e show ?thesis by simp
  qed
  then show "2 powi binExp a \<le> a" and "a < 2 powi (binExp a + 1)" by auto
qed

lemma binExp_unique:
  assumes "2 powi e \<le> a" "a < 2 powi (e + 1)"
  shows "binExp a = e"
proof -
  have pos: "0 < a" using assms(1) two_powi_pos [of e] by linarith
  note b = binExp_bounds [OF pos]
  have "2 powi e < (2::real) powi (binExp a + 1)" using assms(1) b(2) by linarith
  then have 1: "e < binExp a + 1" by (simp only: two_powi_less_iff)
  have "2 powi binExp a < (2::real) powi (e + 1)" using assms(2) b(1) by linarith
  then have 2: "binExp a < e + 1" by (simp only: two_powi_less_iff)
  from 1 2 show ?thesis by simp
qed

lemma roundTiesToEven_of_int [simp]: "roundTiesToEven (of_int n) = n"
  by (simp add: roundTiesToEven_def)

lemma roundTiesToEven_nearest:
  assumes "\<bar>t - of_int m\<bar> < 1 / 2"
  shows "roundTiesToEven t = m"
proof -
  have "\<lfloor>t\<rfloor> = m \<or> \<lfloor>t\<rfloor> = m - 1" using assms by linarith
  then show ?thesis
  proof
    assume f: "\<lfloor>t\<rfloor> = m"
    then have "t - of_int m < 1 / 2" using assms by linarith
    with f show ?thesis by (simp add: roundTiesToEven_def Let_def)
  next
    assume f: "\<lfloor>t\<rfloor> = m - 1"
    have "- (1 / 2) < t - of_int m" using assms by linarith
    moreover have "real_of_int (m - 1) = of_int m - 1" by simp
    ultimately have "1 / 2 < t - of_int (m - 1)" by linarith
    with f show ?thesis by (simp add: roundTiesToEven_def Let_def)
  qed
qed

lemma roundTiesToEven_bounds: "\<lfloor>t\<rfloor> \<le> roundTiesToEven t" "roundTiesToEven t \<le> \<lceil>t\<rceil>"
proof -
  show "\<lfloor>t\<rfloor> \<le> roundTiesToEven t" by (simp add: roundTiesToEven_def Let_def)
  have "\<lfloor>t\<rfloor> + 1 \<le> \<lceil>t\<rceil>" if "t \<noteq> of_int \<lfloor>t\<rfloor>"
    using that by linarith
  moreover have "t - of_int \<lfloor>t\<rfloor> < 1 / 2" if "t = of_int \<lfloor>t\<rfloor>"
    using that by linarith
  ultimately show "roundTiesToEven t \<le> \<lceil>t\<rceil>"
    by (cases "t = of_int \<lfloor>t\<rfloor>") (auto simp: roundTiesToEven_def Let_def)
qed

text \<open>
  A rounding is checked by its certificate: the exponent of the last place \<open>k\<close> and the
  significand \<open>m\<close>, less than half a place away.
\<close>

lemma roundDouble_cert:
  assumes "2 powi (k + 52) \<le> \<bar>a\<bar>" "\<bar>a\<bar> < 2 powi (k + 53)" "- 1074 \<le> k"
    and "\<bar>a / 2 powi k - of_int m\<bar> < 1 / 2"
  shows "roundDouble a = of_int m * 2 powi k"
proof -
  have "\<bar>a\<bar> < 2 powi (k + 52 + 1)" using assms(2) by (simp add: add.commute add.left_commute)
  with assms(1) have "binExp \<bar>a\<bar> = k + 52" by (rule binExp_unique)
  moreover have "max (k + 52) (- 1022) - 52 = k" using assms(3) by linarith
  ultimately have q: "quantum a = 2 powi k" by (simp only: quantum_def)
  have "0 < \<bar>a\<bar>" using assms(1) two_powi_pos [of "k + 52"] by linarith
  then have "a \<noteq> 0" by simp
  then show ?thesis
    using roundTiesToEven_nearest [OF assms(4)] by (simp add: roundDouble_def q)
qed

lemma roundTiesToEven_tie: "roundTiesToEven (of_int f + 1 / 2) = (if even f then f else f + 1)"
proof -
  have "\<lfloor>real_of_int f + 1 / 2\<rfloor> = f" by linarith
  then show ?thesis by (simp add: roundTiesToEven_def Let_def)
qed

lemma roundDouble_cert_tie:
  assumes "2 powi (k + 52) \<le> \<bar>a\<bar>" "\<bar>a\<bar> < 2 powi (k + 53)" "- 1074 \<le> k"
    and "a / 2 powi k = of_int f + 1 / 2"
  shows "roundDouble a = of_int (if even f then f else f + 1) * 2 powi k"
proof -
  have "\<bar>a\<bar> < 2 powi (k + 52 + 1)" using assms(2) by (simp add: add.commute add.left_commute)
  with assms(1) have "binExp \<bar>a\<bar> = k + 52" by (rule binExp_unique)
  moreover have "max (k + 52) (- 1022) - 52 = k" using assms(3) by linarith
  ultimately have q: "quantum a = 2 powi k" by (simp only: quantum_def)
  have "0 < \<bar>a\<bar>" using assms(1) two_powi_pos [of "k + 52"] by linarith
  then have "a \<noteq> 0" by simp
  then show ?thesis
    unfolding roundDouble_def q assms(4) roundTiesToEven_tie by simp
qed

text \<open>A double rounds to itself.\<close>

lemma roundDouble_exact:
  assumes "a = of_int m * 2 powi k" "\<bar>m\<bar> < 2 ^ 53" "- 1074 \<le> k"
  shows "roundDouble a = a"
proof (cases "a = 0")
  case True
  then show ?thesis by (simp add: roundDouble_def)
next
  case False
  define e where "e = binExp \<bar>a\<bar>"
  define j where "j = max e (- 1022) - 52"
  have pos: "0 < \<bar>a\<bar>" using False by simp
  have "real_of_int \<bar>m\<bar> < of_int (2 ^ 53)" using assms(2) by (simp only: of_int_less_iff)
  then have m: "\<bar>real_of_int m\<bar> < 2 powi 53" by simp
  have "\<bar>a\<bar> = \<bar>real_of_int m\<bar> * 2 powi k" by (simp add: assms(1) abs_mult)
  also have "\<dots> < 2 powi 53 * 2 powi k"
    using m by (intro mult_strict_right_mono) simp_all
  also have "\<dots> = 2 powi (k + 53)" by (simp add: power_int_add)
  finally have "\<bar>a\<bar> < 2 powi (k + 53)" .
  moreover have "2 powi e \<le> \<bar>a\<bar>" unfolding e_def using pos by (rule binExp_bounds)
  ultimately have "(2::real) powi e < 2 powi (k + 53)" by linarith
  then have "e < k + 53" by (simp only: two_powi_less_iff)
  then have jk: "j \<le> k" using assms(3) unfolding j_def by linarith
  have q: "quantum a = 2 powi j" by (simp add: quantum_def e_def j_def)
  have "(2::real) powi k = 2 powi (k - j) * 2 powi j" by (simp flip: power_int_add)
  also have "(2::real) powi (k - j) = of_int (2 ^ nat (k - j))"
    using jk by (intro two_powi_nat) simp
  finally have k: "(2::real) powi k = of_int (2 ^ nat (k - j)) * 2 powi j" .
  have "a / 2 powi j = of_int (m * 2 ^ nat (k - j))"
    unfolding assms(1) k by simp
  then have "roundTiesToEven (a / quantum a) = m * 2 ^ nat (k - j)"
    unfolding q by (simp only: roundTiesToEven_of_int)
  then have "roundDouble a = of_int (m * 2 ^ nat (k - j)) * 2 powi j"
    using False by (simp add: roundDouble_def q)
  also have "\<dots> = a" unfolding assms(1) k by simp
  finally show ?thesis .
qed

text \<open>Rounding does not cross a power of two.\<close>

lemma roundDouble_ge_pow:
  assumes "2 powi b \<le> a" "- 1022 \<le> b"
  shows "2 powi b \<le> roundDouble a"
proof -
  have pos: "0 < a" using assms(1) two_powi_pos [of b] by linarith
  define e where "e = binExp a"
  have e: "2 powi e \<le> a" "a < 2 powi (e + 1)"
    unfolding e_def using pos by (rule binExp_bounds)+
  have "(2::real) powi b < 2 powi (e + 1)" using assms(1) e(2) by linarith
  then have be: "b \<le> e" by (simp only: two_powi_less_iff)
  have "max e (- 1022) - 52 = e - 52" using be assms(2) by linarith
  moreover have "\<bar>a\<bar> = a" using pos by simp
  ultimately have q: "quantum a = 2 powi (e - 52)"
    by (simp only: quantum_def e_def)
  have "(2::real) powi (52 + (e - 52)) = 2 powi 52 * 2 powi (e - 52)"
    by (intro power_int_add) simp
  then have split: "real_of_int (2 ^ 52) * 2 powi (e - 52) = 2 powi e" by simp
  then have "real_of_int (2 ^ 52) * 2 powi (e - 52) \<le> a" using e(1) by simp
  then have "real_of_int (2 ^ 52) \<le> a / 2 powi (e - 52)"
    by (simp add: pos_le_divide_eq)
  then have "2 ^ 52 \<le> \<lfloor>a / 2 powi (e - 52)\<rfloor>" by (simp only: le_floor_iff)
  then have "2 ^ 52 \<le> roundTiesToEven (a / 2 powi (e - 52))"
    using roundTiesToEven_bounds(1) [of "a / 2 powi (e - 52)"] by linarith
  then have "real_of_int (2 ^ 52) \<le> of_int (roundTiesToEven (a / 2 powi (e - 52)))"
    by (simp only: of_int_le_iff)
  then have "real_of_int (2 ^ 52) * 2 powi (e - 52)
               \<le> of_int (roundTiesToEven (a / 2 powi (e - 52))) * 2 powi (e - 52)"
    by (intro mult_right_mono) simp_all
  moreover note split
  moreover have "roundDouble a = of_int (roundTiesToEven (a / 2 powi (e - 52))) * 2 powi (e - 52)"
    using pos by (simp add: roundDouble_def q)
  moreover have "(2::real) powi b \<le> 2 powi e" using be by (simp only: two_powi_le_iff)
  ultimately show ?thesis by linarith
qed

lemma roundDouble_le_pow:
  assumes "2 powi b \<le> a" "- 1022 \<le> b" "a \<le> 2 powi c"
  shows "roundDouble a \<le> 2 powi c"
proof (cases "a = 2 powi c")
  case True
  have "(2::real) powi b \<le> 2 powi c" using assms(1) True by simp
  then have "b \<le> c" by (simp only: two_powi_le_iff)
  then have "roundDouble a = a"
    using assms(2) True by (intro roundDouble_exact [where m = 1 and k = c]) simp_all
  with True show ?thesis by simp
next
  case False
  then have lt: "a < 2 powi c" using assms(3) by simp
  have pos: "0 < a" using assms(1) two_powi_pos [of b] by linarith
  define e where "e = binExp a"
  have e: "2 powi e \<le> a" "a < 2 powi (e + 1)"
    unfolding e_def using pos by (rule binExp_bounds)+
  have "(2::real) powi b < 2 powi (e + 1)" using assms(1) e(2) by linarith
  then have be: "b \<le> e" by (simp only: two_powi_less_iff)
  have "(2::real) powi e < 2 powi c" using e(1) lt by linarith
  then have ec: "e + 1 \<le> c" by (simp only: two_powi_less_iff)
  have "max e (- 1022) - 52 = e - 52" using be assms(2) by linarith
  moreover have "\<bar>a\<bar> = a" using pos by simp
  ultimately have q: "quantum a = 2 powi (e - 52)"
    by (simp only: quantum_def e_def)
  have "(2::real) powi (53 + (e - 52)) = 2 powi 53 * 2 powi (e - 52)"
    by (intro power_int_add) simp
  moreover have "53 + (e - 52) = e + 1" by simp
  ultimately have split: "real_of_int (2 ^ 53) * 2 powi (e - 52) = 2 powi (e + 1)" by simp
  then have "a < real_of_int (2 ^ 53) * 2 powi (e - 52)" using e(2) by simp
  then have "a / 2 powi (e - 52) \<le> real_of_int (2 ^ 53)"
    by (simp add: pos_divide_le_eq)
  then have "\<lceil>a / 2 powi (e - 52)\<rceil> \<le> 2 ^ 53" by (simp only: ceiling_le_iff)
  then have "roundTiesToEven (a / 2 powi (e - 52)) \<le> 2 ^ 53"
    using roundTiesToEven_bounds(2) [of "a / 2 powi (e - 52)"] by linarith
  then have "real_of_int (roundTiesToEven (a / 2 powi (e - 52))) \<le> of_int (2 ^ 53)"
    by (simp only: of_int_le_iff)
  then have "of_int (roundTiesToEven (a / 2 powi (e - 52))) * 2 powi (e - 52)
               \<le> real_of_int (2 ^ 53) * 2 powi (e - 52)"
    by (intro mult_right_mono) simp_all
  moreover note split
  moreover have "roundDouble a = of_int (roundTiesToEven (a / 2 powi (e - 52))) * 2 powi (e - 52)"
    using pos by (simp add: roundDouble_def q)
  moreover have "(2::real) powi (e + 1) \<le> 2 powi c" using ec by (simp only: two_powi_le_iff)
  ultimately show ?thesis by linarith
qed

lemma fl_Num:
  assumes "roundDouble a = v" "v \<noteq> 0" "\<bar>v\<bar> < 2 ^ 1024"
  shows "fl a = Num v"
  using assms by (auto simp: fl_def Let_def)

lemma fl_exact:
  assumes "a = of_int m * 2 powi k" "\<bar>m\<bar> < 2 ^ 53" "- 1074 \<le> k" "a \<noteq> 0" "\<bar>a\<bar> < 2 ^ 1024"
  shows "fl a = Num a"
  using roundDouble_exact [OF assms(1,2,3)] assms(4,5) by (intro fl_Num)

lemma fl_integer:
  assumes "a = of_int n" "n \<noteq> 0" "\<bar>n\<bar> < 2 ^ 53"
  shows "fl a = Num a"
proof -
  have "\<bar>real_of_int n\<bar> < of_int (2 ^ 53)"
    using assms(3) by (simp only: of_int_less_iff flip: of_int_abs)
  also have "\<dots> < 2 ^ 1024" by simp
  finally have "\<bar>a\<bar> < 2 ^ 1024" using assms(1) by simp
  then show ?thesis
    using assms by (intro fl_exact [where m = n and k = 0]) simp_all
qed

section \<open>The roundings of the examples\<close>

lemma double_c299: "roundDouble (299 / 1000) = 5386305154335113 / 2 ^ 54"
  using roundDouble_cert [of "-54" "299 / 1000" "5386305154335113"]
  by (simp add: power_int_minus)

lemma double_c587: "roundDouble (587 / 1000) = 2643612981266481 / 2 ^ 52"
  using roundDouble_cert [of "-53" "587 / 1000" "5287225962532962"]
  by (simp add: power_int_minus)

lemma double_c114: "roundDouble (114 / 1000) = 8214565720323785 / 2 ^ 56"
  using roundDouble_cert [of "-56" "114 / 1000" "8214565720323785"]
  by (simp add: power_int_minus)

lemma double_d05: "roundDouble (5 / 100) = 3602879701896397 / 2 ^ 56"
  using roundDouble_cert [of "-57" "5 / 100" "7205759403792794"]
  by (simp add: power_int_minus)

lemma double_d07: "roundDouble (7 / 10) = 3152519739159347 / 2 ^ 52"
  using roundDouble_cert [of "-53" "7 / 10" "6305039478318694"]
  by (simp add: power_int_minus)

lemma white_p1: "roundDouble (5386305154335113 / 2 ^ 54 * 255) = 5365264899825991 / 2 ^ 46"
  using roundDouble_cert [of "-46" "5386305154335113 / 2 ^ 54 * 255" "5365264899825991"]
  by (simp add: power_int_minus)

lemma white_p2: "roundDouble (2643612981266481 / 2 ^ 52 * 255) = 2633286368058409 / 2 ^ 44"
  using roundDouble_cert [of "-45" "2643612981266481 / 2 ^ 52 * 255" "5266572736116818"]
  by (simp add: power_int_minus)

lemma white_p3: "roundDouble (8214565720323785 / 2 ^ 56 * 255) = 4091238786489385 / 2 ^ 47"
  using roundDouble_cert [of "-48" "8214565720323785 / 2 ^ 56 * 255" "8182477572978770"]
  by (simp add: power_int_minus)

lemma white_s1: "roundDouble (5365264899825991 / 2 ^ 46 + 2633286368058409 / 2 ^ 44) = 3974602593014907 / 2 ^ 44"
  using roundDouble_cert_tie [of "-45" "5365264899825991 / 2 ^ 46 + 2633286368058409 / 2 ^ 44" "7949205186029813"]
  by (simp add: power_int_minus)

lemma white_s2: "roundDouble (3974602593014907 / 2 ^ 44 + 4091238786489385 / 2 ^ 47) = 255"
  using roundDouble_cert [of "-45" "3974602593014907 / 2 ^ 44 + 4091238786489385 / 2 ^ 47" "8972014882652160"]
  by (simp add: power_int_minus)

lemma gray_p1: "roundDouble (5386305154335113 / 2 ^ 54 * 128) = 5386305154335113 / 2 ^ 47"
  using roundDouble_cert [of "-47" "5386305154335113 / 2 ^ 54 * 128" "5386305154335113"]
  by (simp add: power_int_minus)

lemma gray_p2: "roundDouble (2643612981266481 / 2 ^ 52 * 128) = 2643612981266481 / 2 ^ 45"
  using roundDouble_cert [of "-46" "2643612981266481 / 2 ^ 52 * 128" "5287225962532962"]
  by (simp add: power_int_minus)

lemma gray_p3: "roundDouble (8214565720323785 / 2 ^ 56 * 128) = 8214565720323785 / 2 ^ 49"
  using roundDouble_cert [of "-49" "8214565720323785 / 2 ^ 56 * 128" "8214565720323785"]
  by (simp add: power_int_minus)

lemma gray_s1: "roundDouble (5386305154335113 / 2 ^ 47 + 2643612981266481 / 2 ^ 45) = 3990189269850259 / 2 ^ 45"
  using roundDouble_cert_tie [of "-46" "5386305154335113 / 2 ^ 47 + 2643612981266481 / 2 ^ 45" "7980378539700518"]
  by (simp add: power_int_minus)

lemma gray_s2: "roundDouble (3990189269850259 / 2 ^ 45 + 8214565720323785 / 2 ^ 49) = 9007199254740991 / 2 ^ 46"
  using roundDouble_cert [of "-46" "3990189269850259 / 2 ^ 45 + 8214565720323785 / 2 ^ 49" "9007199254740991"]
  by (simp add: power_int_minus)

lemma olive_p1: "roundDouble (5386305154335113 / 2 ^ 54 * 15) = 315603817636823 / 2 ^ 46"
  using roundDouble_cert [of "-50" "5386305154335113 / 2 ^ 54 * 15" "5049661082189168"]
  by (simp add: power_int_minus)

lemma olive_p2: "roundDouble (2643612981266481 / 2 ^ 52 * 87) = 7187322792818245 / 2 ^ 47"
  using roundDouble_cert [of "-47" "2643612981266481 / 2 ^ 52 * 87" "7187322792818245"]
  by (simp add: power_int_minus)

lemma olive_p3: "roundDouble (8214565720323785 / 2 ^ 56 * 39) = 2502875492911153 / 2 ^ 49"
  using roundDouble_cert [of "-50" "8214565720323785 / 2 ^ 56 * 39" "5005750985822306"]
  by (simp add: power_int_minus)

lemma olive_s1: "roundDouble (315603817636823 / 2 ^ 46 + 7187322792818245 / 2 ^ 47) = 7818530428091891 / 2 ^ 47"
  using roundDouble_cert [of "-47" "315603817636823 / 2 ^ 46 + 7187322792818245 / 2 ^ 47" "7818530428091891"]
  by (simp add: power_int_minus)

lemma olive_s2: "roundDouble (7818530428091891 / 2 ^ 47 + 2502875492911153 / 2 ^ 49) = 8444249301319679 / 2 ^ 47"
  using roundDouble_cert [of "-47" "7818530428091891 / 2 ^ 47 + 2502875492911153 / 2 ^ 49" "8444249301319679"]
  by (simp add: power_int_minus)

lemma avg_18_7: "roundDouble (18 / 7) = 5790342378047781 / 2 ^ 51"
  using roundDouble_cert [of "-51" "18 / 7" "5790342378047781"]
  by (simp add: power_int_minus)

lemma quot_9: "roundDouble (9 / (5790342378047781 / 2 ^ 51)) = 7881299347898367 / 2 ^ 51"
  using roundDouble_cert [of "-51" "9 / (5790342378047781 / 2 ^ 51)" "7881299347898367"]
  by (simp add: power_int_minus)

lemma quot_4_9: "roundDouble (1 / (9 / 4)) = 2001599834386887 / 2 ^ 52"
  using roundDouble_cert [of "-54" "1 / (9 / 4)" "8006399337547548"]
  by (simp add: power_int_minus)

section \<open>Properties of estimateHiddenCharacters\<close>

lemma fl_10: "fl 10 = Num 10"
  by (rule fl_integer [of _ 10]) simp_all

lemma fl_minus_5_2: "fl (- (5 / 2)) = Num (- (5 / 2))"
  by (rule fl_exact [of _ "- 5" "- 1"]) (simp_all add: power_int_minus)

lemma fl_18_7: "fl (18 / 7) = Num (5790342378047781 / 2 ^ 51)"
  by (rule fl_Num [OF avg_18_7]) simp_all

lemma fl_quot_9: "fl (9 / (5790342378047781 / 2 ^ 51)) = Num (7881299347898367 / 2 ^ 51)"
  by (rule fl_Num [OF quot_9]) simp_all

lemma js_div_Num: "a \<noteq> 0 \<Longrightarrow> b \<noteq> 0 \<Longrightarrow> js_div (Num a) (Num b) = fl (a / b)"
  by (simp add: js_div_def)

lemma fl_1_4: "fl (1 / 4) = Num (1 / 4)"
  by (rule fl_exact [of _ 1 "- 2"]) (simp_all add: power_int_minus)

lemma fl_overflow: "fl (2 ^ 1025) = PosInfinity"
proof -
  have "roundDouble (2 ^ 1025) = 2 ^ 1025"
    by (rule roundDouble_exact [of _ 1 1025]) simp_all
  then show ?thesis by (simp add: fl_def)
qed

lemma Math_round_finite:
  assumes "finiteValue a = Some q"
  shows "\<exists>n::int. finiteValue (Math_round a) = Some (of_int n)
           \<and> of_int n - 1 / 2 \<le> q \<and> q < of_int n + 1 / 2
           \<and> (if q < - 1 / 2 then n < 0 else 0 \<le> n)"
proof (cases "- 1 / 2 \<le> q \<and> q < 1 / 2")
  case True
  have "finiteValue (Math_round a) = Some (of_int 0)"
  proof (cases a)
    case (Num v)
    then have v: "v = q" using assms by simp
    have "\<lfloor>q + 1 / 2\<rfloor> = 0" if "\<not> q < 0" using True that by linarith
    then show ?thesis using True by (simp add: Num v)
  qed (use assms in simp_all)
  then show ?thesis using True by (intro exI [of _ 0]) simp
next
  case False
  then obtain v where a: "a = Num v" and v: "v = q"
    using assms by (cases a) auto
  define n where "n = \<lfloor>q + 1 / 2\<rfloor>"
  have e: "finiteValue (Math_round a) = Some (of_int n)"
    using False by (auto simp: a v n_def)
  have lo: "of_int n \<le> q + 1 / 2" and hi: "q + 1 / 2 < of_int n + 1"
    unfolding n_def by linarith+
  have b: "of_int n - 1 / 2 \<le> q \<and> q < of_int n + 1 / 2"
    using lo hi by linarith
  have neg: "n < 0" if "q < - 1 / 2"
  proof -
    have "real_of_int n < 0" using lo that by linarith
    then show ?thesis by simp
  qed
  have nonneg: "0 \<le> n" if "\<not> q < - 1 / 2"
  proof -
    have "- 1 < real_of_int n" using hi that by linarith
    then have "- 1 < n" by linarith
    then show ?thesis by simp
  qed
  show ?thesis
    using e b neg nonneg by (intro exI [of _ n]) simp
qed

lemma Math_round_not_finite: "finiteValue a = None \<Longrightarrow> Math_round a = a"
  by (cases a) simp_all

text \<open>
  Claim C7. \<open>estimateHiddenCharacters(100, 50, 5)\<close> is 10, \<open>estimateHiddenCharacters(0, 50, 5)\<close>
  is 0, and with a reference text of length 0 the result is 0 whatever the two widths
  are (the non-finite ones included).
\<close>

theorem estimate_examples_and_zero_guard:
  "estimateHiddenCharacters (Num 100) (Num 50) (Num 5) = Num 10
   \<and> estimateHiddenCharacters (Num 0) (Num 50) (Num 5) = Num 0
   \<and> (\<forall>redactionW referenceW. estimateHiddenCharacters redactionW referenceW (Num 0) = Num 0)"
  by (simp add: estimateHiddenCharacters_def js_div_def fl_10 signedZero_def)

text \<open>
  Claim C8, as stated, fails: the quotient \<open>-25 / (50 / 5) = -2.5\<close>, which the two
  divisions compute without a rounding error, is rounded to \<open>-2\<close> by \<open>Math.round\<close>, where
  rounding half away from zero gives \<open>-3\<close>.
\<close>

theorem estimate_round_half_away_counterexample:
  "estimateHiddenCharacters (Num (- 25)) (Num 50) (Num 5) = Num (- 2)
   \<and> roundHalfAwayFromZero (- 25 / (50 / 5)) = - 3"
  by (simp add: estimateHiddenCharacters_def roundHalfAwayFromZero_def js_div_def fl_10
      fl_minus_5_2)

text \<open>
  Claim C8, amended. For a reference text length other than 0, the result is
  \<open>Math.round\<close> of the quotient that the two divisions compute in double precision:
  when that quotient \<open>q\<close> is finite, the integer \<open>n\<close> nearest to it, a tie going to the
  greater integer (\<open>n - 1/2 \<le> q < n + 1/2\<close>), with nothing clamped, so that a
  quotient below \<open>-1/2\<close> has a negative estimate and a quotient of 0 the estimate 0;
  when it is not finite (a division by zero, an overflow), the quotient itself. The
  quotient computed may differ from the exact one: for the widths 9 and 18 and the
  length 7 it is \<open>3.4999999999999996\<close> and the estimate is 3, where the exact quotient
  is \<open>3.5\<close>.
\<close>

theorem estimate_rounds_half_up:
  assumes "\<not> isZero len"
  shows "(\<forall>q. finiteValue (js_div rW (js_div refW len)) = Some q \<longrightarrow>
            (\<exists>n::int. finiteValue (estimateHiddenCharacters rW refW len) = Some (of_int n)
               \<and> of_int n - 1 / 2 \<le> q \<and> q < of_int n + 1 / 2
               \<and> (if q < - 1 / 2 then n < 0 else 0 \<le> n)
               \<and> (if q = 0 then n = 0 else True)))
         \<and> (finiteValue (js_div rW (js_div refW len)) = None \<longrightarrow>
              estimateHiddenCharacters rW refW len = js_div rW (js_div refW len))"
proof (intro conjI allI impI)
  fix q
  assume q: "finiteValue (js_div rW (js_div refW len)) = Some q"
  from Math_round_finite [OF q] obtain n :: int
    where n: "finiteValue (Math_round (js_div rW (js_div refW len))) = Some (of_int n)"
      "of_int n - 1 / 2 \<le> q" "q < of_int n + 1 / 2" "if q < - 1 / 2 then n < 0 else 0 \<le> n"
    by blast
  have "n = 0" if "q = 0"
  proof -
    have "- 1 < real_of_int n" "real_of_int n < 1" using n(2,3) that by linarith+
    then have "- 1 < n" "n < 1" by linarith+
    then show ?thesis by simp
  qed
  then show "\<exists>n::int. finiteValue (estimateHiddenCharacters rW refW len) = Some (of_int n)
               \<and> of_int n - 1 / 2 \<le> q \<and> q < of_int n + 1 / 2
               \<and> (if q < - 1 / 2 then n < 0 else 0 \<le> n)
               \<and> (if q = 0 then n = 0 else True)"
    using n assms by (intro exI [of _ n]) (simp add: estimateHiddenCharacters_def)
next
  assume "finiteValue (js_div rW (js_div refW len)) = None"
  then show "estimateHiddenCharacters rW refW len = js_div rW (js_div refW len)"
    using assms by (simp add: estimateHiddenCharacters_def Math_round_not_finite)
qed

theorem estimate_rounds_half_up_witness:
  "\<not> isZero (Num 5)
   \<and> finiteValue (js_div (Num (- 25)) (js_div (Num 50) (Num 5))) = Some (- (5 / 2))
   \<and> (\<exists>n::int. finiteValue (estimateHiddenCharacters (Num (- 25)) (Num 50) (Num 5)) = Some (of_int n)
         \<and> of_int n - 1 / 2 \<le> (- (5 / 2) :: real) \<and> (- (5 / 2) :: real) < of_int n + 1 / 2
         \<and> n < 0)
   \<and> \<not> isZero (Num 7)
   \<and> finiteValue (js_div (Num 9) (js_div (Num 18) (Num 7))) = Some (7881299347898367 / 2 ^ 51)
   \<and> (\<exists>n::int. finiteValue (estimateHiddenCharacters (Num 9) (Num 18) (Num 7)) = Some (of_int n)
         \<and> of_int n - 1 / 2 \<le> (7881299347898367 / 2 ^ 51 :: real)
         \<and> (7881299347898367 / 2 ^ 51 :: real) < of_int n + 1 / 2
         \<and> 0 \<le> n)
   \<and> estimateHiddenCharacters (Num 9) (Num 18) (Num 7) = Num 3
   \<and> \<not> isZero (Num 4)
   \<and> finiteValue (js_div (Num (2 ^ 1023)) (js_div (Num 1) (Num 4))) = None
   \<and> estimateHiddenCharacters (Num (2 ^ 1023)) (Num 1) (Num 4) = PosInfinity"
proof -
  have a: "js_div (Num (- 25)) (js_div (Num 50) (Num 5)) = Num (- (5 / 2))"
    by (simp add: js_div_def fl_10 fl_minus_5_2)
  have "js_div (Num 18) (Num 7) = Num (5790342378047781 / 2 ^ 51)"
    by (simp add: js_div_Num fl_18_7)
  moreover have "js_div (Num 9) (Num (5790342378047781 / 2 ^ 51))
                   = fl (9 / (5790342378047781 / 2 ^ 51))"
    by (rule js_div_Num) simp_all
  ultimately have b: "js_div (Num 9) (js_div (Num 18) (Num 7)) = Num (7881299347898367 / 2 ^ 51)"
    by (simp only: fl_quot_9)
  have "js_div (Num 1) (Num 4) = Num (1 / 4)"
    by (simp add: js_div_Num fl_1_4)
  moreover have "js_div (Num (2 ^ 1023)) (Num (1 / 4)) = fl (2 ^ 1023 / (1 / 4))"
    by (rule js_div_Num) simp_all
  moreover have "(2 ^ 1023 / (1 / 4) :: real) = 2 ^ 1025"
    by simp
  ultimately have c: "js_div (Num (2 ^ 1023)) (js_div (Num 1) (Num 4)) = PosInfinity"
    by (simp only: fl_overflow)
  have three: "estimateHiddenCharacters (Num 9) (Num 18) (Num 7) = Num 3"
  proof -
    have "\<lfloor>7881299347898367 / 2 ^ 51 + 1 / 2 :: real\<rfloor> = 3" by (simp add: floor_eq_iff)
    then show ?thesis
      unfolding estimateHiddenCharacters_def Let_def b by simp
  qed
  show ?thesis
    using estimate_rounds_half_up [of "Num 5" "Num (- 25)" "Num 50"]
      estimate_rounds_half_up [of "Num 7" "Num 9" "Num 18"]
      estimate_rounds_half_up [of "Num 4" "Num (2 ^ 1023)" "Num 1"]
    unfolding a b c three by simp
qed

text \<open>
  Claim C10. Only a reference text length of 0 is guarded. With a positive length and a
  reference width of 0 the average character width is 0, the second division is a
  division by zero, and for a redaction width other than 0 the result is an infinity:
  no finite number, so no character count.
\<close>

theorem estimate_zero_reference_width:
  assumes "0 < len" and "rW \<noteq> 0"
  shows "js_div (Num 0) (Num len) = Num 0
         \<and> estimateHiddenCharacters (Num rW) (Num 0) (Num len)
             = (if 0 < rW then PosInfinity else NegInfinity)
         \<and> (\<forall>n. estimateHiddenCharacters (Num rW) (Num 0) (Num len) \<noteq> Num n)"
  using assms by (simp add: estimateHiddenCharacters_def js_div_def signedZero_def signedInfinity_def)

theorem estimate_zero_reference_width_witness:
  "(0::real) < 5 \<and> (100::real) \<noteq> 0
   \<and> js_div (Num 0) (Num 5) = Num 0
   \<and> estimateHiddenCharacters (Num 100) (Num 0) (Num 5) = PosInfinity"
  using estimate_zero_reference_width [of 5 100] by simp

section \<open>The luminance of the colours of the examples\<close>

lemma roundDouble_zero [simp]: "roundDouble 0 = 0"
  by (simp add: roundDouble_def)

lemma luminance_black: "luminance 0 0 0 = 0"
  by (simp add: luminance_def)

lemma luminance_white: "luminance 255 255 255 = 255"
proof -
  have u: "real (unat (255 :: byte)) = 255" by simp
  show ?thesis
    unfolding luminance_def u double_c299 double_c587 double_c114
      white_p1 white_p2 white_p3 white_s1 white_s2 by (rule refl)
qed

lemma luminance_gray: "luminance 128 128 128 = 9007199254740991 / 2 ^ 46"
proof -
  have u: "real (unat (128 :: byte)) = 128" by simp
  show ?thesis
    unfolding luminance_def u double_c299 double_c587 double_c114
      gray_p1 gray_p2 gray_p3 gray_s1 gray_s2 by (rule refl)
qed

lemma luminance_olive: "luminance 15 87 39 = 8444249301319679 / 2 ^ 47"
proof -
  have u: "real (unat (15 :: byte)) = 15" "real (unat (87 :: byte)) = 87"
    "real (unat (39 :: byte)) = 39" by simp_all
  show ?thesis
    unfolding luminance_def u double_c299 double_c587 double_c114
      olive_p1 olive_p2 olive_p3 olive_s1 olive_s2 by (rule refl)
qed

lemma pixelLuminance_opaque: "pixelLuminance (opaque r g b) = luminance r g b"
  by (simp add: pixelLuminance_def opaque_def)

lemma pixelLuminance_transparentBlack: "pixelLuminance transparentBlack = 0"
  by (simp add: pixelLuminance_def transparentBlack_def luminance_black)

section \<open>The comparisons\<close>

lemma js_less_finite: "finiteValue a = Some v \<Longrightarrow> js_less a (Num b) \<longleftrightarrow> v < b"
  by (cases a) (simp_all add: js_less_def)

lemma js_greater_eq_finite: "finiteValue a = Some v \<Longrightarrow> js_greater_eq a (Num b) \<longleftrightarrow> b \<le> v"
  by (cases a) (auto simp: js_greater_eq_def js_less_def)

lemma js_less_Num [simp]: "js_less (Num a) (Num b) \<longleftrightarrow> a < b"
  by (simp add: js_less_def)

section \<open>Reading the image data\<close>

lemma length_concat_uniform:
  "(\<forall>xs \<in> set xss. length xs = m) \<Longrightarrow> length (concat xss) = length xss * m"
  by (induction xss) auto

lemma nth_concat_uniform:
  "(\<forall>xs \<in> set xss. length xs = m) \<Longrightarrow> i < length xss \<Longrightarrow> k < m
     \<Longrightarrow> concat xss ! (i * m + k) = xss ! i ! k"
proof (induction xss arbitrary: i)
  case Nil
  then show ?case by simp
next
  case (Cons ys xss)
  show ?case
  proof (cases i)
    case 0
    with Cons.prems show ?thesis by (simp add: nth_append)
  next
    case (Suc j)
    with Cons.prems have "concat xss ! (j * m + k) = xss ! j ! k"
      by (intro Cons.IH) auto
    with Suc Cons.prems show ?thesis by (simp add: nth_append add.assoc)
  qed
qed

lemma length_sourceRectangle: "length (sourceRectangle x0 y0 cols rows) = rows * cols"
  unfolding sourceRectangle_def by (subst length_concat_uniform [where m = cols]) auto

lemma nth_sourceRectangle:
  "r < rows \<Longrightarrow> c < cols
     \<Longrightarrow> sourceRectangle x0 y0 cols rows ! (r * cols + c) = (x0 + int c, y0 + int r)"
  unfolding sourceRectangle_def by (subst nth_concat_uniform [where m = cols]) auto

lemma index_in_bitmap:
  assumes "r < rows" "c < (cols::nat)"
  shows "r * cols + c < rows * cols"
proof -
  have "r * cols + c < r * cols + cols" using assms by simp
  also have "\<dots> = Suc r * cols" by simp
  also have "\<dots> \<le> rows * cols" using assms by (intro mult_le_mono1) simp
  finally show ?thesis .
qed

text \<open>
  The image of the whole canvas: the channels of the pixel \<open>(c, r)\<close> stand at the index
  \<open>(r * W + c) * 4\<close> and the next ones, the index \<open>isDark\<close> computes.
\<close>

lemma getImageDataSteps_full:
  assumes "0 < width canvas" "0 < height canvas"
  shows "\<exists>img. getImageDataSteps canvas 0 0 (int (width canvas)) (int (height canvas)) = Inr img
     \<and> length (data img) = height canvas * width canvas * 4
     \<and> (\<forall>r c. r < height canvas \<and> c < width canvas \<longrightarrow>
           data img ! ((r * width canvas + c) * 4) = red (bitmap canvas (int c) (int r))
         \<and> data img ! ((r * width canvas + c) * 4 + 1) = green (bitmap canvas (int c) (int r))
         \<and> data img ! ((r * width canvas + c) * 4 + 2) = blue (bitmap canvas (int c) (int r)))"
proof -
  let ?ps = "sourceRectangle 0 0 (width canvas) (height canvas)"
  let ?f = "\<lambda>(px, py). channels (pixelAt canvas px py)"
  let ?d = "concat (map ?f ?ps)"
  have g: "getImageDataSteps canvas 0 0 (int (width canvas)) (int (height canvas)) = Inr \<lparr>data = ?d\<rparr>"
    using assms by (simp add: getImageDataSteps_def)
  have u: "\<forall>xs \<in> set (map ?f ?ps). length xs = 4"
    by (auto simp: channels_def)
  have len: "length ?d = height canvas * width canvas * 4"
    using length_concat_uniform [OF u] by (simp add: length_sourceRectangle)
  have nth: "?d ! ((r * width canvas + c) * 4 + k) = channels (bitmap canvas (int c) (int r)) ! k"
    if "r < height canvas" "c < width canvas" "k < 4" for r c k
  proof -
    have i: "r * width canvas + c < length (map ?f ?ps)"
      using index_in_bitmap [OF that(1,2)] by (simp add: length_sourceRectangle)
    have "?d ! ((r * width canvas + c) * 4 + k) = map ?f ?ps ! (r * width canvas + c) ! k"
      using nth_concat_uniform [OF u i \<open>k < 4\<close>] .
    also have "\<dots> = ?f (?ps ! (r * width canvas + c)) ! k"
      using i by simp
    also have "\<dots> = channels (pixelAt canvas (int c) (int r)) ! k"
      using that by (simp add: nth_sourceRectangle)
    also have "\<dots> = channels (bitmap canvas (int c) (int r)) ! k"
      using that by (simp add: pixelAt_def)
    finally show ?thesis .
  qed
  have "\<forall>r c. r < height canvas \<and> c < width canvas \<longrightarrow>
           ?d ! ((r * width canvas + c) * 4) = red (bitmap canvas (int c) (int r))
         \<and> ?d ! ((r * width canvas + c) * 4 + 1) = green (bitmap canvas (int c) (int r))
         \<and> ?d ! ((r * width canvas + c) * 4 + 2) = blue (bitmap canvas (int c) (int r))"
    using nth [of _ _ 0] nth [of _ _ 1] nth [of _ _ 2] by (simp add: channels_def)
  with g len show ?thesis by simp
qed

lemma getImageDataSteps_empty:
  "width canvas = 0 \<or> height canvas = 0
     \<Longrightarrow> getImageDataSteps canvas 0 0 (int (width canvas)) (int (height canvas)) = Inl IndexSizeError"
  by (auto simp: getImageDataSteps_def)

lemma floor_in_range:
  fixes p :: real
  assumes "0 \<le> p" "p < real n"
  shows "0 \<le> \<lfloor>p\<rfloor>" "\<lfloor>p\<rfloor> < int n" "nat \<lfloor>p\<rfloor> < n"
proof -
  show a: "0 \<le> \<lfloor>p\<rfloor>" using assms by simp
  show b: "\<lfloor>p\<rfloor> < int n" using assms by (simp add: floor_less_iff)
  show "nat \<lfloor>p\<rfloor> < n" using a b by linarith
qed

text \<open>On the image of the whole canvas, \<open>isDark\<close> is \<open>darkAt\<close>.\<close>

lemma isDark_full:
  assumes g: "getImageDataSteps canvas 0 0 (int (width canvas)) (int (height canvas)) = Inr img"
    and pos: "0 < width canvas" "0 < height canvas"
  shows "isDark (data img) (int (width canvas)) (int (height canvas)) px py = darkAt canvas px py"
proof (cases "insideCanvas canvas px py")
  case False
  then show ?thesis by (auto simp: isDark_def insideCanvas_def darkAt_def)
next
  case True
  define c where "c = nat \<lfloor>px\<rfloor>"
  define r where "r = nat \<lfloor>py\<rfloor>"
  from True have c: "c < width canvas" "\<lfloor>px\<rfloor> = int c" and r: "r < height canvas" "\<lfloor>py\<rfloor> = int r"
    using floor_in_range [of px "width canvas"] floor_in_range [of py "height canvas"]
    by (simp_all add: insideCanvas_def c_def r_def)
  from getImageDataSteps_full [OF pos] g
  have len: "length (data img) = height canvas * width canvas * 4"
    and nth: "data img ! ((r * width canvas + c) * 4) = red (bitmap canvas (int c) (int r))"
       "data img ! ((r * width canvas + c) * 4 + 1) = green (bitmap canvas (int c) (int r))"
       "data img ! ((r * width canvas + c) * 4 + 2) = blue (bitmap canvas (int c) (int r))"
    using c r by auto
  have idx: "nat ((\<lfloor>py\<rfloor> * int (width canvas) + \<lfloor>px\<rfloor>) * 4) = (r * width canvas + c) * 4"
  proof -
    have "(\<lfloor>py\<rfloor> * int (width canvas) + \<lfloor>px\<rfloor>) * 4 = int ((r * width canvas + c) * 4)"
      using c r by simp
    then show ?thesis by (simp only: nat_int)
  qed
  have inb: "(r * width canvas + c) * 4 + 2 < length (data img)"
    using index_in_bitmap [OF r(1) c(1)] len by simp
  have pa: "pixelAt canvas \<lfloor>px\<rfloor> \<lfloor>py\<rfloor> = bitmap canvas (int c) (int r)"
    using c r by (simp add: pixelAt_def)
  have "isDark (data img) (int (width canvas)) (int (height canvas)) px py
          = (luminance (red (bitmap canvas (int c) (int r))) (green (bitmap canvas (int c) (int r)))
               (blue (bitmap canvas (int c) (int r))) < 60)"
    using True inb unfolding isDark_def Let_def idx nth
    by (simp add: insideCanvas_def not_le)
  then show ?thesis
    using True by (simp add: darkAt_def probeLuminance_def pixelLuminance_def pa)
qed

section \<open>Properties of detectRedactionAtPoint\<close>

lemma detect_inside:
  assumes "context2d canvas" "finiteValue startX = Some sx" "finiteValue startY = Some sy"
    and "insideCanvas canvas sx sy"
  shows "detectRedactionAtPoint canvas startX startY =
     (if \<not> darkAt canvas sx sy then Inr None
      else let rect = scanlines (darkAt canvas) (int (width canvas)) (int (height canvas))
                        startX startY
           in if js_less (Rect.w rect) (Num 5) \<or> js_less (Rect.h rect) (Num 5) then Inr None
              else Inr (Some rect))"
proof -
  from assms(4) have pos: "0 < width canvas" "0 < height canvas"
    by (auto simp: insideCanvas_def intro: gr0I)
  from getImageDataSteps_full [OF pos] obtain img
    where g: "getImageDataSteps canvas 0 0 (int (width canvas)) (int (height canvas)) = Inr img"
    by blast
  have d: "isDark (data img) (int (width canvas)) (int (height canvas)) = darkAt canvas"
    by (intro ext) (simp add: isDark_full [OF g pos])
  have r: "\<not> js_less startX (Num 0)" "\<not> js_greater_eq startX (Num (of_int (int (width canvas))))"
    "\<not> js_less startY (Num 0)" "\<not> js_greater_eq startY (Num (of_int (int (height canvas))))"
    using assms(4)
    by (simp_all add: insideCanvas_def js_less_finite [OF assms(2)] js_less_finite [OF assms(3)]
        js_greater_eq_finite [OF assms(2)] js_greater_eq_finite [OF assms(3)])
  show ?thesis
    unfolding detectRedactionAtPoint_def Let_def
    using assms(1) r by (simp add: g d assms(2,3))
qed

lemma detect_outside:
  assumes "finiteValue startX = Some sx" "finiteValue startY = Some sy"
    and "\<not> insideCanvas canvas sx sy"
  shows "detectRedactionAtPoint canvas startX startY = Inr None"
proof -
  have "js_less startX (Num 0) \<or> js_greater_eq startX (Num (of_int (int (width canvas))))
        \<or> js_less startY (Num 0) \<or> js_greater_eq startY (Num (of_int (int (height canvas))))"
    using assms(3)
    by (auto simp: insideCanvas_def js_less_finite [OF assms(1)] js_less_finite [OF assms(2)]
        js_greater_eq_finite [OF assms(1)] js_greater_eq_finite [OF assms(2)] not_le not_less)
  then show ?thesis
    unfolding detectRedactionAtPoint_def Let_def by auto
qed

lemma detect_infinite:
  assumes "isInfinite startX \<or> isInfinite startY"
  shows "detectRedactionAtPoint canvas startX startY = Inr None"
proof -
  have "js_less a (Num 0) \<or> js_greater_eq a (Num b)" if "isInfinite a" for a b
    using that by (cases a) (simp_all add: js_less_def js_greater_eq_def)
  then have "js_less startX (Num 0) \<or> js_greater_eq startX (Num (of_int (int (width canvas))))
        \<or> js_less startY (Num 0) \<or> js_greater_eq startY (Num (of_int (int (height canvas))))"
    using assms by blast
  then show ?thesis
    unfolding detectRedactionAtPoint_def Let_def by auto
qed

lemma detect_no_context:
  "\<not> context2d canvas \<Longrightarrow> detectRedactionAtPoint canvas startX startY = Inr None"
  by (simp add: detectRedactionAtPoint_def)

text \<open>
  With a coordinate that is \<open>NaN\<close>, on a canvas that has pixels, the start point is not
  dark.
\<close>

lemma detect_NaN:
  assumes "isNaN startX \<or> isNaN startY" "0 < width canvas" "0 < height canvas"
  shows "detectRedactionAtPoint canvas startX startY = Inr None"
proof -
  from getImageDataSteps_full [OF assms(2,3)] obtain img
    where g: "getImageDataSteps canvas 0 0 (int (width canvas)) (int (height canvas)) = Inr img"
    by blast
  have "finiteValue startX = None \<or> finiteValue startY = None"
    using assms(1) by (cases startX; cases startY) auto
  then have "(case (finiteValue startX, finiteValue startY) of
                (Some sx, Some sy) \<Rightarrow> f sx sy | _ \<Rightarrow> Inr None) = (Inr None :: JSException + Rect option)"
    for f by (auto split: option.splits)
  then show ?thesis
    unfolding detectRedactionAtPoint_def Let_def g by simp
qed

lemma detect_no_exception:
  assumes "(\<not> isNaN startX \<and> \<not> isNaN startY) \<or> (0 < width canvas \<and> 0 < height canvas)"
  shows "\<exists>r. detectRedactionAtPoint canvas startX startY = Inr r"
proof (cases "context2d canvas")
  case False
  then show ?thesis by (simp add: detect_no_context)
next
  case ctx: True
  show ?thesis
  proof (cases "isNaN startX \<or> isNaN startY")
    case True
    then have "0 < width canvas" "0 < height canvas" using assms by auto
    with True show ?thesis by (simp add: detect_NaN)
  next
    case False
    show ?thesis
    proof (cases "isInfinite startX \<or> isInfinite startY")
      case True
      then show ?thesis by (simp add: detect_infinite)
    next
      case fin: False
      obtain sx where sx: "finiteValue startX = Some sx"
        using False fin by (cases startX) auto
      obtain sy where sy: "finiteValue startY = Some sy"
        using False fin by (cases startY) auto
      show ?thesis
      proof (cases "insideCanvas canvas sx sy")
        case True
        then show ?thesis by (simp add: detect_inside [OF ctx sx sy] Let_def)
      next
        case False
        then show ?thesis by (simp add: detect_outside [OF sx sy])
      qed
    qed
  qed
qed

subsection \<open>The scans on a solid box\<close>

lemma scanDown_eq:
  assumes "0 \<le> lo" "lo \<le> m" "\<forall>i. lo \<le> i \<and> i < m \<longrightarrow> dark i" "lo = 0 \<or> \<not> dark (lo - 1)"
  shows "scanDown dark m = lo"
  using assms
proof (induction dark m rule: scanDown.induct)
  case (1 dark m)
  show ?case
  proof (cases "lo < m")
    case True
    with "1.prems" have s: "0 < m \<and> dark (m - 1)" by simp
    then have "scanDown dark (m - 1) = lo"
      using "1.prems" True by (intro "1.IH") auto
    with s show ?thesis by (subst scanDown.simps) simp
  next
    case False
    with "1.prems" have "m = lo" by simp
    with "1.prems" show ?thesis by (subst scanDown.simps) auto
  qed
qed

lemma scanUp_eq:
  assumes "m \<le> hi" "hi \<le> bound - 1" "\<forall>i. m < i \<and> i \<le> hi \<longrightarrow> dark i"
    "hi = bound - 1 \<or> \<not> dark (hi + 1)"
  shows "scanUp dark bound m = hi"
  using assms
proof (induction dark bound m rule: scanUp.induct)
  case (1 dark bound m)
  show ?case
  proof (cases "m < hi")
    case True
    with "1.prems" have s: "m < bound - 1 \<and> dark (m + 1)" by simp
    then have "scanUp dark bound (m + 1) = hi"
      using "1.prems" True by (intro "1.IH") auto
    with s show ?thesis by (subst scanUp.simps) simp
  next
    case False
    with "1.prems" have "m = hi" by simp
    with "1.prems" show ?thesis by (subst scanUp.simps) auto
  qed
qed

lemma insideCanvas_floor:
  "insideCanvas canvas px py \<longleftrightarrow>
     0 \<le> \<lfloor>px\<rfloor> \<and> \<lfloor>px\<rfloor> < int (width canvas) \<and> 0 \<le> \<lfloor>py\<rfloor> \<and> \<lfloor>py\<rfloor> < int (height canvas)"
  by (simp add: insideCanvas_def floor_less_iff)

lemma darkAt_solid:
  assumes "solidDarkBox canvas bl bt bw bh"
  shows "darkAt canvas px py \<longleftrightarrow> insideBox bl bt bw bh \<lfloor>px\<rfloor> \<lfloor>py\<rfloor>"
proof (cases "insideCanvas canvas px py")
  case True
  then have "(probeLuminance canvas px py < 60) = insideBox bl bt bw bh \<lfloor>px\<rfloor> \<lfloor>py\<rfloor>"
    using assms unfolding probeLuminance_def pixelAt_def solidDarkBox_def insideCanvas_floor
    by simp
  with True show ?thesis by (simp add: darkAt_def)
next
  case False
  moreover have "\<not> insideBox bl bt bw bh \<lfloor>px\<rfloor> \<lfloor>py\<rfloor>"
    using False assms unfolding insideCanvas_floor solidDarkBox_def insideBox_def by linarith
  ultimately show ?thesis by (simp add: darkAt_def)
qed

lemma valueOf_finite: "finiteValue a = Some v \<Longrightarrow> valueOf a = v"
  by (cases a) simp_all

lemma scanlines_solid:
  assumes d: "\<And>px py. dark px py \<longleftrightarrow> insideBox bl bt bw bh \<lfloor>px\<rfloor> \<lfloor>py\<rfloor>"
    and R: "0 \<le> bl" "0 \<le> bt" "bl + bw \<le> cw" "bt + bh \<le> ch"
    and v: "valueOf startX = sx" "valueOf startY = sy"
    and p: "insideBox bl bt bw bh \<lfloor>sx\<rfloor> \<lfloor>sy\<rfloor>"
  shows "scanlines dark cw ch startX startY
           = \<lparr>x = (if startX = NegZero \<and> bl + bw - 1 = 0 then NegZero else Num (of_int bl)),
              y = (if startY = NegZero then NegZero else Num (of_int bt)),
              w = Num (of_int (bw - 1)), h = Num (of_int (bh - 1))\<rparr>"
proof -
  have row: "scanDown (\<lambda>i. dark (of_int i) py) m = bl
             \<and> scanUp (\<lambda>i. dark (of_int i) py) cw m = bl + bw - 1"
    if "insideBox bl bt bw bh m \<lfloor>py\<rfloor>" for py m
  proof
    show "scanDown (\<lambda>i. dark (of_int i) py) m = bl"
      using that R by (intro scanDown_eq) (auto simp: d insideBox_def)
    show "scanUp (\<lambda>i. dark (of_int i) py) cw m = bl + bw - 1"
      using that R by (intro scanUp_eq) (auto simp: d insideBox_def)
  qed
  have col: "scanDown (\<lambda>j. dark px (of_int j)) m = bt
             \<and> scanUp (\<lambda>j. dark px (of_int j)) ch m = bt + bh - 1"
    if "insideBox bl bt bw bh \<lfloor>px\<rfloor> m" for px m
  proof
    show "scanDown (\<lambda>j. dark px (of_int j)) m = bt"
      using that R by (intro scanDown_eq) (auto simp: d insideBox_def)
    show "scanUp (\<lambda>j. dark px (of_int j)) ch m = bt + bh - 1"
      using that R by (intro scanUp_eq) (auto simp: d insideBox_def)
  qed
  define cx where "cx = (bl + (bl + bw - 1)) div 2"
  define cy where "cy = (bt + (bt + bh - 1)) div 2"
  have cx: "bl \<le> cx" "cx < bl + bw"
    using p unfolding cx_def insideBox_def by linarith+
  have cy: "bt \<le> cy" "cy < bt + bh"
    using p unfolding cy_def insideBox_def by linarith+
  note s1 = row [OF p]
  have "insideBox bl bt bw bh \<lfloor>real_of_int cx\<rfloor> \<lfloor>sy\<rfloor>"
    using p cx by (simp add: insideBox_def)
  note s2 = col [OF this]
  have "insideBox bl bt bw bh cx \<lfloor>real_of_int cy\<rfloor>"
    using cx cy by (simp add: insideBox_def)
  note s3 = row [OF this]
  show ?thesis
    unfolding scanlines_def Let_def v
    by (simp only: s1 cx_def [symmetric] s2 cy_def [symmetric] s3) simp
qed

text \<open>
  What the detector returns on a solid dark box, probed at any of its points: the corner
  of the box, and the differences of the last and the first dark column and row, which
  are the width and the height of the box less 1.
\<close>

lemma detect_solid:
  assumes "context2d canvas" "solidDarkBox canvas bl bt bw bh"
    and "finiteValue startX = Some sx" "finiteValue startY = Some sy"
    and "insideBox bl bt bw bh \<lfloor>sx\<rfloor> \<lfloor>sy\<rfloor>"
  shows "detectRedactionAtPoint canvas startX startY =
           (if bw < 6 \<or> bh < 6 then Inr None
            else Inr (Some \<lparr>x = Num (of_int bl),
                            y = (if startY = NegZero then NegZero else Num (of_int bt)),
                            w = Num (of_int (bw - 1)), h = Num (of_int (bh - 1))\<rparr>))"
proof -
  have dk: "darkAt canvas sx sy"
    using assms by (simp add: darkAt_solid)
  then have ins: "insideCanvas canvas sx sy"
    by (simp add: darkAt_def)
  have bl: "0 \<le> bl"
    using assms(2) by (simp add: solidDarkBox_def)
  have "scanlines (darkAt canvas) (int (width canvas)) (int (height canvas)) startX startY
          = \<lparr>x = (if startX = NegZero \<and> bl + bw - 1 = 0 then NegZero else Num (of_int bl)),
             y = (if startY = NegZero then NegZero else Num (of_int bt)),
             w = Num (of_int (bw - 1)), h = Num (of_int (bh - 1))\<rparr>"
    using assms valueOf_finite [OF assms(3)] valueOf_finite [OF assms(4)]
    by (intro scanlines_solid [where sx = sx and sy = sy]) (auto simp: darkAt_solid solidDarkBox_def)
  then show ?thesis
    using dk bl by (auto simp: detect_inside [OF assms(1,3,4) ins])
qed

lemma insideRect_whole:
  "insideRect \<lparr>x = Num (of_int bl), y = Num (of_int bt), w = Num (of_int bw), h = Num (of_int bh)\<rparr>
     px py = insideBox bl bt bw bh px py"
proof -
  have "real_of_int px < of_int bl + of_int bw \<longleftrightarrow> px < bl + bw"
    by (simp only: of_int_add [symmetric] of_int_less_iff)
  moreover have "real_of_int py < of_int bt + of_int bh \<longleftrightarrow> py < bt + bh"
    by (simp only: of_int_add [symmetric] of_int_less_iff)
  ultimately show ?thesis
    by (simp add: insideRect_def insideBox_def)
qed

lemma solidDarkBox_blackRectOnWhite:
  assumes "0 \<le> bl" "0 \<le> bt" "0 < bw" "0 < bh" "bl + bw \<le> int cw" "bt + bh \<le> int ch"
  shows "solidDarkBox
           (blackRectOnWhite cw ch
              \<lparr>x = Num (of_int bl), y = Num (of_int bt), w = Num (of_int bw), h = Num (of_int bh)\<rparr>)
           bl bt bw bh"
  using assms
  by (simp add: solidDarkBox_def blackRectOnWhite_def pixelLuminance_opaque luminance_black
      luminance_white insideRect_whole)

lemma detect_blackRectOnWhite:
  assumes "0 \<le> bl" "0 \<le> bt" "bl + bw \<le> int cw" "bt + bh \<le> int ch"
    and "finiteValue startX = Some sx" "finiteValue startY = Some sy"
    and "insideBox bl bt bw bh \<lfloor>sx\<rfloor> \<lfloor>sy\<rfloor>"
  shows "detectRedactionAtPoint
           (blackRectOnWhite cw ch
              \<lparr>x = Num (of_int bl), y = Num (of_int bt), w = Num (of_int bw), h = Num (of_int bh)\<rparr>)
           startX startY =
           (if bw < 6 \<or> bh < 6 then Inr None
            else Inr (Some \<lparr>x = Num (of_int bl),
                            y = (if startY = NegZero then NegZero else Num (of_int bt)),
                            w = Num (of_int (bw - 1)), h = Num (of_int (bh - 1))\<rparr>))"
proof -
  let ?c = "blackRectOnWhite cw ch
              \<lparr>x = Num (of_int bl), y = Num (of_int bt), w = Num (of_int bw), h = Num (of_int bh)\<rparr>"
  have "0 < bw" "0 < bh"
    using assms(7) by (auto simp: insideBox_def)
  then have "solidDarkBox ?c bl bt bw bh"
    using assms by (intro solidDarkBox_blackRectOnWhite)
  moreover have "context2d ?c"
    by (simp add: blackRectOnWhite_def)
  ultimately show ?thesis
    using assms(5,6,7) by (intro detect_solid)
qed

lemma solidDarkBox_uniform_olive:
  "0 < cw \<Longrightarrow> 0 < ch \<Longrightarrow> solidDarkBox (uniformCanvas cw ch (opaque 15 87 39)) 0 0 (int cw) (int ch)"
  by (simp add: solidDarkBox_def uniformCanvas_def pixelLuminance_opaque luminance_olive
      insideBox_def)

lemma scanlines_whole:
  "\<exists>a b :: int. w (scanlines dark cw ch startX startY) = Num (of_int a)
      \<and> h (scanlines dark cw ch startX startY) = Num (of_int b)"
  unfolding scanlines_def Let_def Rect.select_convs number.inject of_int_eq_iff by blast

text \<open>
  Claim C1, evaluated on the example of the specification: the rectangle
  \<open>{x: 10, y: 10, w: 40, h: 20}\<close> on a canvas of 100 \<times> 100, probed at \<open>(15, 15)\<close>,
  \<open>(30, 20)\<close> and \<open>(49, 29)\<close>. The detector returns \<open>{10, 10, 39, 19}\<close> each time,
  not the rectangle drawn: its width and height are one too small.
\<close>

theorem detect_example_off_by_one:
  "detectRedactionAtPoint
     (blackRectOnWhite 100 100 \<lparr>x = Num 10, y = Num 10, w = Num 40, h = Num 20\<rparr>) (Num 15) (Num 15)
     = Inr (Some \<lparr>x = Num 10, y = Num 10, w = Num 39, h = Num 19\<rparr>)
   \<and> detectRedactionAtPoint
       (blackRectOnWhite 100 100 \<lparr>x = Num 10, y = Num 10, w = Num 40, h = Num 20\<rparr>) (Num 30) (Num 20)
     = Inr (Some \<lparr>x = Num 10, y = Num 10, w = Num 39, h = Num 19\<rparr>)
   \<and> detectRedactionAtPoint
       (blackRectOnWhite 100 100 \<lparr>x = Num 10, y = Num 10, w = Num 40, h = Num 20\<rparr>) (Num 49) (Num 29)
     = Inr (Some \<lparr>x = Num 10, y = Num 10, w = Num 39, h = Num 19\<rparr>)"
  using detect_blackRectOnWhite [where bl = 10 and bt = 10 and bw = 40 and bh = 20 and cw = 100
      and ch = 100 and startX = "Num 15" and startY = "Num 15" and sx = 15 and sy = 15]
    detect_blackRectOnWhite [where bl = 10 and bt = 10 and bw = 40 and bh = 20 and cw = 100
      and ch = 100 and startX = "Num 30" and startY = "Num 20" and sx = 30 and sy = 20]
    detect_blackRectOnWhite [where bl = 10 and bt = 10 and bw = 40 and bh = 20 and cw = 100
      and ch = 100 and startX = "Num 49" and startY = "Num 29" and sx = 49 and sy = 29]
  by (simp add: insideBox_def)




text \<open>
  Claim C4. A rectangle the detector returns is at least 5 wide and 5 high (its width
  and height are whole numbers); where the start point is dark and the candidate that
  the scans build is narrower or lower, the detector returns \<open>null\<close>.
\<close>

theorem detect_minimum_size:
  "(detectRedactionAtPoint canvas startX startY = Inr (Some r)
      \<longrightarrow> (\<exists>a b :: int. w r = Num (of_int a) \<and> h r = Num (of_int b) \<and> 5 \<le> a \<and> 5 \<le> b))
   \<and> (context2d canvas \<and> finiteValue startX = Some sx \<and> finiteValue startY = Some sy
        \<and> darkAt canvas sx sy
        \<and> (js_less
              (w (scanlines (darkAt canvas) (int (width canvas)) (int (height canvas)) startX startY))
              (Num 5)
           \<or> js_less
               (h (scanlines (darkAt canvas) (int (width canvas)) (int (height canvas)) startX startY))
               (Num 5))
      \<longrightarrow> detectRedactionAtPoint canvas startX startY = Inr None)"
proof (intro conjI impI)
  assume some: "detectRedactionAtPoint canvas startX startY = Inr (Some r)"
  have ctx: "context2d canvas"
    using some detect_no_context [of canvas startX startY] by auto
  have "\<not> (isInfinite startX \<or> isInfinite startY)"
    using some detect_infinite [of startX startY canvas] by auto
  moreover have "\<not> (isNaN startX \<or> isNaN startY)"
  proof
    assume n: "isNaN startX \<or> isNaN startY"
    show False
    proof (cases "0 < width canvas \<and> 0 < height canvas")
      case True
      then show False using some n detect_NaN [of startX startY canvas] by simp
    next
      case False
      then have "getImageDataSteps canvas 0 0 (int (width canvas)) (int (height canvas))
                   = Inl IndexSizeError"
        by (intro getImageDataSteps_empty) auto
      then show False
        using some unfolding detectRedactionAtPoint_def Let_def by (simp split: if_splits)
    qed
  qed
  ultimately obtain sx' sy' where f: "finiteValue startX = Some sx'" "finiteValue startY = Some sy'"
    by (cases startX; cases startY) auto
  have ins: "insideCanvas canvas sx' sy'"
    using some detect_outside [OF f, of canvas] by auto
  define cand where
    "cand = scanlines (darkAt canvas) (int (width canvas)) (int (height canvas)) startX startY"
  have r: "r = cand" and big: "\<not> js_less (w cand) (Num 5)" "\<not> js_less (h cand) (Num 5)"
    using some unfolding detect_inside [OF ctx f ins] cand_def [symmetric] Let_def
    by (auto split: if_splits)
  obtain a b :: int where ab: "w cand = Num (of_int a)" "h cand = Num (of_int b)"
    unfolding cand_def using scanlines_whole by blast
  have "5 \<le> a" "5 \<le> b"
    using big unfolding ab by simp_all
  with ab r show "\<exists>a b :: int. w r = Num (of_int a) \<and> h r = Num (of_int b) \<and> 5 \<le> a \<and> 5 \<le> b"
    by blast
next
  assume a: "context2d canvas \<and> finiteValue startX = Some sx \<and> finiteValue startY = Some sy
        \<and> darkAt canvas sx sy
        \<and> (js_less
              (w (scanlines (darkAt canvas) (int (width canvas)) (int (height canvas)) startX startY))
              (Num 5)
           \<or> js_less
               (h (scanlines (darkAt canvas) (int (width canvas)) (int (height canvas)) startX startY))
               (Num 5))"
  then have "insideCanvas canvas sx sy" by (simp add: darkAt_def)
  with a show "detectRedactionAtPoint canvas startX startY = Inr None"
    by (auto simp: detect_inside Let_def)
qed

theorem detect_minimum_size_witness:
  "detectRedactionAtPoint
     (blackRectOnWhite 20 16 \<lparr>x = Num 2, y = Num 3, w = Num 8, h = Num 9\<rparr>) (Num (9 / 2)) (Num (25 / 4))
     = Inr (Some \<lparr>x = Num 2, y = Num 3, w = Num 7, h = Num 8\<rparr>)
   \<and> (\<exists>a b :: int. w \<lparr>x = Num 2, y = Num 3, w = Num 7, h = Num 8\<rparr> = Num (of_int a)
         \<and> h \<lparr>x = Num 2, y = Num 3, w = Num 7, h = Num 8\<rparr> = Num (of_int b) \<and> 5 \<le> a \<and> 5 \<le> b)
   \<and> context2d (blackRectOnWhite 20 16 \<lparr>x = Num 2, y = Num 3, w = Num 4, h = Num 9\<rparr>)
   \<and> finiteValue (Num 3) = Some 3 \<and> finiteValue (Num 5) = Some 5
   \<and> darkAt (blackRectOnWhite 20 16 \<lparr>x = Num 2, y = Num 3, w = Num 4, h = Num 9\<rparr>) 3 5
   \<and> js_less
       (w (scanlines (darkAt (blackRectOnWhite 20 16 \<lparr>x = Num 2, y = Num 3, w = Num 4, h = Num 9\<rparr>))
             20 16 (Num 3) (Num 5)))
       (Num 5)
   \<and> detectRedactionAtPoint
       (blackRectOnWhite 20 16 \<lparr>x = Num 2, y = Num 3, w = Num 4, h = Num 9\<rparr>) (Num 3) (Num 5)
       = Inr None"
proof -
  let ?c = "blackRectOnWhite 20 16 \<lparr>x = Num 2, y = Num 3, w = Num 4, h = Num 9\<rparr>"
  let ?b = "blackRectOnWhite 20 16 \<lparr>x = Num 2, y = Num 3, w = Num 8, h = Num 9\<rparr>"
  have e: "detectRedactionAtPoint ?b (Num (9 / 2)) (Num (25 / 4))
     = Inr (Some \<lparr>x = Num 2, y = Num 3, w = Num 7, h = Num 8\<rparr>)"
    using detect_blackRectOnWhite [where bl = 2 and bt = 3 and bw = 8 and bh = 9 and cw = 20
        and ch = 16 and startX = "Num (9 / 2)" and startY = "Num (25 / 4)" and sx = "9 / 2"
        and sy = "25 / 4"]
    by (simp add: insideBox_def)
  have s: "solidDarkBox ?c 2 3 4 9"
    using solidDarkBox_blackRectOnWhite [of 2 3 4 9 20 16] by simp
  have c: "context2d ?c" and d: "width ?c = 20" "height ?c = 16"
    by (simp_all add: blackRectOnWhite_def)
  have k: "darkAt ?c 3 5"
    by (simp add: darkAt_solid [OF s] insideBox_def)
  have "scanlines (darkAt ?c) 20 16 (Num 3) (Num 5)
          = \<lparr>x = (if Num 3 = NegZero \<and> (2::int) + 4 - 1 = 0 then NegZero else Num (of_int 2)),
             y = (if Num 5 = NegZero then NegZero else Num (of_int 3)),
             w = Num (of_int (4 - 1)), h = Num (of_int (9 - 1))\<rparr>"
    by (rule scanlines_solid [where sx = 3 and sy = 5])
      (simp_all add: darkAt_solid [OF s] insideBox_def)
  then have n: "js_less (w (scanlines (darkAt ?c) 20 16 (Num 3) (Num 5))) (Num 5)"
    by simp
  show ?thesis
    using e c k n
      detect_minimum_size [of ?b "Num (9 / 2)" "Num (25 / 4)"
        "\<lparr>x = Num 2, y = Num 3, w = Num 7, h = Num 8\<rparr>" 0 0]
      detect_minimum_size [of ?c "Num 3" "Num 5" _ 3 5]
    by (simp add: d)
qed

section \<open>Properties of analyzeLazyRedaction\<close>

text \<open>The loop counts the pixels of the image whose luminance is above 30 and below 250.\<close>

lemma countNonBlack_channels:
  "countNonBlack (concat (map (\<lambda>p. channels (f p)) ps)) = length (filter (\<lambda>p. suspicious (f p)) ps)"
  by (induction ps) (simp_all add: channels_def suspicious_def pixelLuminance_def)

lemma upto_as_offsets: "map (\<lambda>i. a + int i) [0..<n] = [a..a + int n - 1]"
proof (induction n)
  case 0
  then show ?case by simp
next
  case (Suc n)
  have "[a..a + int (Suc n) - 1] = [a..a + int n - 1] @ [a + int n]"
    using upto_rec2 [of a "a + int n"] by simp
  with Suc show ?case by simp
qed

text \<open>
  For a width and a height that are not negative, the source rectangle of \<open>getImageData\<close>
  is the list of the pixels of the box.
\<close>

lemma sourceRectangle_pixelsInside:
  assumes "0 \<le> bw" "0 \<le> bh"
  shows "sourceRectangle bl bt (nat bw) (nat bh) = pixelsInside bl bt bw bh"
proof -
  have cols: "[bl..bl + bw - 1] = map (\<lambda>i. bl + int i) [0..<nat bw]"
    using assms upto_as_offsets [of bl "nat bw"] by simp
  have rows: "[bt..bt + bh - 1] = map (\<lambda>i. bt + int i) [0..<nat bh]"
    using assms upto_as_offsets [of bt "nat bh"] by simp
  show ?thesis
    unfolding sourceRectangle_def pixelsInside_def cols rows
    by (simp add: comp_def)
qed

lemma length_pixelsInside:
  assumes "0 \<le> bw" "0 \<le> bh"
  shows "length (pixelsInside bl bt bw bh) = nat bh * nat bw"
  using length_sourceRectangle [of bl bt "nat bw" "nat bh"]
  by (simp add: sourceRectangle_pixelsInside [OF assms])

lemma getImageDataSteps_positive:
  assumes "0 < lw" "0 < lh"
  shows "getImageDataSteps canvas lx ly lw lh
           = Inr \<lparr>data = concat (map (\<lambda>(px, py). channels (pixelAt canvas px py))
                                (pixelsInside lx ly lw lh))\<rparr>"
  using assms sourceRectangle_pixelsInside [of lw lh lx ly]
  by (simp add: getImageDataSteps_def)

lemma getImageData_longFields:
  "longFields rect = Some (lx, ly, lw, lh)
     \<Longrightarrow> getImageData canvas (x rect) (y rect) (w rect) (h rect) = getImageDataSteps canvas lx ly lw lh"
  by (auto simp: getImageData_def longFields_def split: sum.splits)

lemma getImageData_no_longFields:
  "longFields rect = None
     \<Longrightarrow> getImageData canvas (x rect) (y rect) (w rect) (h rect) = Inl TypeError"
  by (auto simp: getImageData_def longFields_def split: sum.splits)

lemma suspiciousCount_longFields:
  "longFields rect = Some (lx, ly, lw, lh)
     \<Longrightarrow> suspiciousCount canvas rect
           = length (filter (\<lambda>(px, py). suspicious (pixelAt canvas px py)) (pixelsInside lx ly lw lh))"
  by (simp add: suspiciousCount_def)

lemma countNonBlack_pixelsInside:
  assumes "longFields rect = Some (lx, ly, lw, lh)"
  shows "countNonBlack (concat (map (\<lambda>(px, py). channels (pixelAt canvas px py))
                                  (pixelsInside lx ly lw lh)))
           = suspiciousCount canvas rect"
proof -
  have f: "(\<lambda>(px, py). channels (pixelAt canvas px py))
             = (\<lambda>p. channels (case p of (px, py) \<Rightarrow> pixelAt canvas px py))"
    by (simp add: fun_eq_iff split: prod.splits)
  show ?thesis
    unfolding f countNonBlack_channels suspiciousCount_longFields [OF assms]
    by (simp add: case_prod_unfold)
qed

text \<open>
  What the classifier returns for a rectangle whose width and height, cut to their
  integer parts, are positive.
\<close>

lemma analyze_positive_area:
  assumes "context2d canvas" "longFields rect = Some (lx, ly, lw, lh)" "0 < lw" "0 < lh"
  shows "analyzeLazyRedaction canvas rect
           = Inr (js_greater
                    (js_div (Num (real (suspiciousCount canvas rect))) (js_mul (w rect) (h rect)))
                    (Num (roundDouble (5 / 100))))"
  unfolding analyzeLazyRedaction_def Let_def getImageData_longFields [OF assms(2)]
    getImageDataSteps_positive [OF assms(3,4)]
  using assms(1) by (simp add: countNonBlack_pixelsInside [OF assms(2)])

lemma analyze_zero_side:
  assumes "context2d canvas" "longFields rect = Some (lx, ly, lw, lh)" "lw = 0 \<or> lh = 0"
  shows "analyzeLazyRedaction canvas rect = Inl IndexSizeError"
  unfolding analyzeLazyRedaction_def Let_def getImageData_longFields [OF assms(2)]
  using assms(1,3) by (auto simp: getImageDataSteps_def)

lemma analyze_no_longFields:
  assumes "context2d canvas" "longFields rect = None"
  shows "analyzeLazyRedaction canvas rect = Inl TypeError"
  unfolding analyzeLazyRedaction_def Let_def getImageData_no_longFields [OF assms(2)]
  using assms(1) by simp

lemma analyze_sides:
  assumes "context2d canvas" "longFields rect = Some (lx, ly, lw, lh)" "lw \<noteq> 0" "lh \<noteq> 0"
  shows "\<exists>b. analyzeLazyRedaction canvas rect = Inr b"
  unfolding analyzeLazyRedaction_def Let_def getImageData_longFields [OF assms(2)]
  using assms(1,3,4) by (simp add: getImageDataSteps_def Let_def)

subsection \<open>The quotient and the double \<open>0.05\<close>\<close>

lemma roundDouble_binade:
  assumes "2 powi e \<le> a" "a < 2 powi (e + 1)" "- 1022 \<le> e"
  shows "roundDouble a = of_int (roundTiesToEven (a / 2 powi (e - 52))) * 2 powi (e - 52)"
proof -
  have pos: "0 < a" using assms(1) two_powi_pos [of e] by linarith
  then have abs: "\<bar>a\<bar> = a" by simp
  have "binExp a = e" using assms(1,2) by (rule binExp_unique)
  moreover have "max e (- 1022) - 52 = e - 52" using assms(3) by linarith
  ultimately have "quantum a = 2 powi (e - 52)"
    by (simp only: quantum_def abs)
  then show ?thesis using pos by (simp add: roundDouble_def)
qed

lemma double_d05_twentieth: "roundDouble (1 / 20) = 3602879701896397 / 2 ^ 56"
  using double_d05 by simp

text \<open>
  For a count \<open>c\<close> and an area \<open>t\<close> of at most \<open>2^52\<close> pixels, the quotient computed is
  above the double \<open>0.05\<close> if and only if \<open>c\<close> is more than a twentieth of \<open>t\<close>.
\<close>

lemma ratio_above_twentieth:
  fixes c t :: int
  assumes "1 \<le> c" "c \<le> t" "t \<le> 2 ^ 52"
  shows "3602879701896397 / 2 ^ 56 < roundDouble (of_int c / of_int t) \<longleftrightarrow> t < 20 * c"
proof -
  define q :: real where "q = of_int c / of_int t"
  have t: "0 < t" using assms by linarith
  have rt: "0 < real_of_int t" using t by simp
  have rc: "1 \<le> real_of_int c" using assms(1) by simp
  have t52: "real_of_int t \<le> 4503599627370496"
  proof -
    have "real_of_int t \<le> of_int (2 ^ 52)" using assms(3) by (simp only: of_int_le_iff)
    then show ?thesis by simp
  qed
  have qlo: "2 powi (- 52) \<le> q"
  proof -
    have "1 / 4503599627370496 \<le> 1 / real_of_int t"
      using t52 rt by (intro divide_left_mono) simp_all
    also have "\<dots> \<le> real_of_int c / real_of_int t"
      using rc rt by (intro divide_right_mono) simp_all
    finally show ?thesis by (simp add: q_def power_int_minus)
  qed
  have binade: "roundDouble q = of_int (roundTiesToEven (q * 144115188075855872)) / 144115188075855872"
    if "2 powi (- 5) \<le> q" "q < 2 powi (- 4)"
  proof -
    have "q < 2 powi (- 5 + 1)" using that(2) by simp
    from roundDouble_binade [OF that(1) this]
    have "roundDouble q = of_int (roundTiesToEven (q / 2 powi (- 57))) * 2 powi (- 57)"
      by simp
    then show ?thesis by (simp add: power_int_minus)
  qed
  show ?thesis
  proof (cases "t < 20 * c")
    case True
    have "3602879701896397 / 2 ^ 56 < roundDouble q"
    proof (cases "2 powi (- 4) \<le> q")
      case True
      then have "2 powi (- 4) \<le> roundDouble q" by (rule roundDouble_ge_pow) simp
      then show ?thesis by (simp add: power_int_minus)
    next
      case False
      then have hi: "q < 2 powi (- 4)" by simp
      have "real_of_int t < of_int (20 * c)" using True by (simp only: of_int_less_iff)
      then have "1 / 20 < q" using rt by (simp add: q_def pos_less_divide_eq)
      then have lo: "2 powi (- 5) \<le> q" by (simp add: power_int_minus)
      have "7205759403792795 * t \<le> c * 144115188075855872"
        using True assms(3) by simp
      then have "real_of_int (7205759403792795 * t) \<le> of_int (c * 144115188075855872)"
        by (simp only: of_int_le_iff)
      then have "real_of_int 7205759403792795 \<le> q * 144115188075855872"
        using rt by (simp add: q_def pos_le_divide_eq)
      then have "7205759403792795 \<le> \<lfloor>q * 144115188075855872\<rfloor>"
        by (simp only: le_floor_iff)
      then have "7205759403792795 \<le> roundTiesToEven (q * 144115188075855872)"
        using roundTiesToEven_bounds(1) [of "q * 144115188075855872"] by linarith
      then have "real_of_int 7205759403792795 \<le> of_int (roundTiesToEven (q * 144115188075855872))"
        by (simp only: of_int_le_iff)
      then show ?thesis
        unfolding binade [OF lo hi] by (simp add: pos_less_divide_eq)
    qed
    with True show ?thesis by (simp add: q_def)
  next
    case False
    have "roundDouble q \<le> 3602879701896397 / 2 ^ 56"
    proof (cases "q \<le> 2 powi (- 5)")
      case True
      from qlo _ True have "roundDouble q \<le> 2 powi (- 5)" by (rule roundDouble_le_pow) simp
      then show ?thesis by (simp add: power_int_minus)
    next
      case False
      then have lo: "2 powi (- 5) \<le> q" by simp
      have "real_of_int (20 * c) \<le> of_int t"
        using \<open>\<not> t < 20 * c\<close> by (simp only: of_int_le_iff)
      then have "q \<le> 1 / 20" using rt by (simp add: q_def pos_divide_le_eq)
      then have hi: "q < 2 powi (- 4)" by (simp add: power_int_minus)
      have "c * 144115188075855872 \<le> 7205759403792794 * t"
        using \<open>\<not> t < 20 * c\<close> t by simp
      then have "real_of_int (c * 144115188075855872) \<le> of_int (7205759403792794 * t)"
        by (simp only: of_int_le_iff)
      then have "q * 144115188075855872 \<le> real_of_int 7205759403792794"
        using rt by (simp add: q_def pos_divide_le_eq)
      then have "\<lceil>q * 144115188075855872\<rceil> \<le> 7205759403792794"
        by (simp only: ceiling_le_iff)
      then have "roundTiesToEven (q * 144115188075855872) \<le> 7205759403792794"
        using roundTiesToEven_bounds(2) [of "q * 144115188075855872"] by linarith
      then have "real_of_int (roundTiesToEven (q * 144115188075855872)) \<le> of_int 7205759403792794"
        by (simp only: of_int_le_iff)
      then show ?thesis
        unfolding binade [OF lo hi] by (simp add: pos_divide_le_eq)
    qed
    with False show ?thesis by (simp add: q_def)
  qed
qed

lemma ratio_range:
  fixes c t :: int
  assumes "1 \<le> c" "c \<le> t" "t \<le> 2 ^ 52"
  shows "0 < roundDouble (of_int c / of_int t)" "roundDouble (of_int c / of_int t) \<le> 1"
proof -
  define q :: real where "q = of_int c / of_int t"
  have t: "0 < t" using assms by linarith
  have rt: "0 < real_of_int t" using t by simp
  have rc: "1 \<le> real_of_int c" using assms(1) by simp
  have "real_of_int t \<le> of_int (2 ^ 52)" using assms(3) by (simp only: of_int_le_iff)
  then have t52: "real_of_int t \<le> 4503599627370496" by simp
  have "1 / 4503599627370496 \<le> 1 / real_of_int t"
    using t52 rt by (intro divide_left_mono) simp_all
  also have "\<dots> \<le> real_of_int c / real_of_int t"
    using rc rt by (intro divide_right_mono) simp_all
  finally have qlo: "2 powi (- 52) \<le> q" by (simp add: q_def power_int_minus)
  have "real_of_int c \<le> of_int t" using assms(2) by (simp only: of_int_le_iff)
  then have qhi: "q \<le> 2 powi 0" using rt by (simp add: q_def)
  have "2 powi (- 52) \<le> roundDouble q" using qlo by (rule roundDouble_ge_pow) simp
  moreover have "0 < (2::real) powi (- 52)" by (rule two_powi_pos)
  ultimately show "0 < roundDouble (of_int c / of_int t)" unfolding q_def by linarith
  from qlo _ qhi have "roundDouble q \<le> 2 powi 0" by (rule roundDouble_le_pow) simp
  then show "roundDouble (of_int c / of_int t) \<le> 1" by (simp add: q_def)
qed

text \<open>
  The comparison of the classifier, for a rectangle of whole width and height and an area
  of at most \<open>2^52\<close> pixels.
\<close>

lemma compare_five_percent:
  fixes lw lh :: int and n :: nat
  assumes "0 < lw" "0 < lh" "lw * lh \<le> 2 ^ 52" "int n \<le> lw * lh"
  shows "js_greater (js_div (Num (real n)) (js_mul (Num (of_int lw)) (Num (of_int lh))))
           (Num (roundDouble (5 / 100)))
         \<longleftrightarrow> 5 / 100 * real_of_int (lw * lh) < real n"
proof -
  define t where "t = lw * lh"
  have t: "0 < t" using assms(1,2) by (simp add: t_def)
  have t52: "t \<le> 2 ^ 52" using assms(3) by (simp add: t_def)
  have prod: "real_of_int lw * of_int lh = of_int t" by (simp add: t_def)
  have "fl (real_of_int t) = Num (of_int t)"
    using t t52 by (intro fl_integer [of _ t]) simp_all
  then have mul: "js_mul (Num (of_int lw)) (Num (of_int lh)) = Num (of_int t)"
    using assms(1,2) by (simp add: js_mul_def prod)
  have d: "roundDouble (5 / 100) = 3602879701896397 / 2 ^ 56" by (rule double_d05)
  have rt: "0 < real_of_int t" using t by simp
  show ?thesis
  proof (cases "n = 0")
    case True
    have "js_div (Num 0) (Num (of_int t)) = Num 0"
      using t by (simp add: js_div_def signedZero_def)
    then show ?thesis
      unfolding mul d True using rt
      by (simp add: js_greater_def t_def [symmetric] del: of_int_mult)
  next
    case False
    define c where "c = int n"
    have c: "1 \<le> c" "c \<le> t" using False assms(4) by (simp_all add: c_def t_def)
    have rn: "real n = of_int c" by (simp add: c_def)
    note r = ratio_range [OF c t52]
    have "\<bar>roundDouble (of_int c / of_int t)\<bar> < 2 ^ 1024"
    proof -
      have "\<bar>roundDouble (of_int c / of_int t)\<bar> \<le> 1" using r by simp
      also have "(1::real) < 2 ^ 1024" by simp
      finally show ?thesis .
    qed
    then have "fl (of_int c / of_int t) = Num (roundDouble (of_int c / of_int t))"
      using r(1) by (intro fl_Num) simp_all
    then have div: "js_div (Num (of_int c)) (Num (of_int t)) = Num (roundDouble (of_int c / of_int t))"
      using c(1) t by (simp add: js_div_def)
    have "(3602879701896397 / 2 ^ 56 < roundDouble (of_int c / of_int t))
            = (5 / 100 * real_of_int t < of_int c)"
    proof -
      have "(5 / 100 * real_of_int t < of_int c) = (real_of_int t < of_int (20 * c))"
        by (simp add: mult.commute)
      also have "\<dots> = (t < 20 * c)" by (simp only: of_int_less_iff)
      finally show ?thesis using ratio_above_twentieth [OF c t52] by simp
    qed
    then show ?thesis
      unfolding mul d rn div js_greater_def js_less_Num t_def [symmetric] .
  qed
qed

lemma suspiciousCount_le_area:
  assumes "longFields rect = Some (lx, ly, lw, lh)" "0 < lw" "0 < lh"
  shows "int (suspiciousCount canvas rect) \<le> lw * lh"
proof -
  have "suspiciousCount canvas rect \<le> length (pixelsInside lx ly lw lh)"
    unfolding suspiciousCount_longFields [OF assms(1)] by (rule length_filter_le)
  also have "\<dots> = nat lh * nat lw"
    using assms(2,3) by (intro length_pixelsInside) simp_all
  finally have "int (suspiciousCount canvas rect) \<le> int (nat lh * nat lw)"
    by (simp only: of_nat_le_iff)
  then show ?thesis using assms(2,3) by (simp add: mult.commute)
qed

lemma fl_9_4: "fl (9 / 4) = Num (9 / 4)"
  by (rule fl_exact [of _ 9 "- 2"]) (simp_all add: power_int_minus)

lemma fl_quot_4_9: "fl (1 / (9 / 4)) = Num (2001599834386887 / 2 ^ 52)"
  by (rule fl_Num [OF quot_4_9]) simp_all

lemma fl_minus_8: "fl (- 8) = Num (- 8)"
  by (rule fl_integer [of _ "- 8"]) simp_all

lemma fl_minus_1_4: "fl (- (1 / 4)) = Num (- (1 / 4))"
  by (rule fl_exact [of _ "- 1" "- 2"]) (simp_all add: power_int_minus)

lemma suspicious_gray: "suspicious (opaque 128 128 128)"
  by (simp add: suspicious_def pixelLuminance_opaque luminance_gray)

lemma suspicious_black: "\<not> suspicious (opaque 0 0 0)"
  by (simp add: suspicious_def pixelLuminance_opaque luminance_black)

lemma suspicious_transparentBlack: "\<not> suspicious transparentBlack"
  by (simp add: suspicious_def pixelLuminance_transparentBlack)







section \<open>Properties of generateEvidenceImage\<close>

lemma fl_2: "fl 2 = Num 2"
  by (rule fl_integer [of _ 2]) simp_all

lemma fl_3: "fl 3 = Num 3"
  by (rule fl_integer [of _ 3]) simp_all

lemma fl_4: "fl 4 = Num 4"
  by (rule fl_integer [of _ 4]) simp_all

text \<open>The size of the font of the overlay for a rectangle 4 high: \<open>4 * 0.7\<close>.\<close>

lemma overlay_font_size:
  "js_mul (Num 4) (Num (roundDouble (7 / 10))) = Num (3152519739159347 / 2 ^ 50)"
proof -
  have "js_mul (Num 4) (Num (3152519739159347 / 2 ^ 52)) = fl (4 * (3152519739159347 / 2 ^ 52))"
    by (simp add: js_mul_def)
  moreover have "(4 * (3152519739159347 / 2 ^ 52) :: real) = 3152519739159347 / 2 ^ 50"
    by simp
  moreover have "fl (3152519739159347 / 2 ^ 50) = Num (3152519739159347 / 2 ^ 50)"
    by (rule fl_exact [of _ 3152519739159347 "- 50"]) (simp_all add: power_int_minus)
  ultimately show ?thesis
    unfolding double_d07 by (simp only:)
qed

lemma overlay_centre:
  "js_add (Num 1) (js_div (Num 6) (Num 2)) = Num 4"
  "js_add (Num 1) (js_div (Num 4) (Num 2)) = Num 3"
  by (simp_all add: js_add_def js_div_def fl_2 fl_3 fl_4)

text \<open>
  Claim C2, as stated, fails. On a white canvas of 8 \<times> 8 with a black rectangle
  \<open>{x: 1, y: 1, w: 6, h: 4}\<close>, the border of the footer, a stroke 4 wide centred on
  \<open>y = 8\<close>, paints the rows 6 and 7 of the image: the pixel \<open>(0, 7)\<close>, white in the input,
  is \<open>#00ff41\<close> in the output, on any platform. The name drawn over the rectangle
  changes pixels of the image too: with the box glyphs the pixel \<open>(4, 3)\<close>, black in the
  input, is \<open>#00ff41\<close> in the output.
\<close>

theorem evidence_top_rows_counterexample:
  "(case evidenceCanvas boxGlyphs
           (blackRectOnWhite 8 8 \<lparr>x = Num 1, y = Num 1, w = Num 6, h = Num 4\<rparr>)
           (Some \<lparr>x = Num 1, y = Num 1, w = Num 6, h = Num 4\<rparr>) exampleProfile of
      Inr (Some out) \<Rightarrow>
        height out = 8 + 150
        \<and> bitmap (blackRectOnWhite 8 8 \<lparr>x = Num 1, y = Num 1, w = Num 6, h = Num 4\<rparr>) 0 7
            = opaque 255 255 255
        \<and> bitmap out 0 7 = opaque 0 255 65
        \<and> bitmap (blackRectOnWhite 8 8 \<lparr>x = Num 1, y = Num 1, w = Num 6, h = Num 4\<rparr>) 4 3
            = opaque 0 0 0
        \<and> bitmap out 4 3 = opaque 0 255 65
    | _ \<Rightarrow> False)"
  by (simp add: evidenceCanvas_def getContext_def newContextState_def drawImage_def footerAndOverlay_def
      paint_def boxPixels_def Let_def boxGlyphs_def blackRectOnWhite_def insideRect_def
      exampleProfile_def opaque_def overlay_font_size overlay_centre)

text \<open>
  Claim C2, amended. On a platform that gives the new canvas a context, for an input
  canvas of \<open>W \<times> H\<close> with \<open>W > 0\<close> and \<open>H > 0\<close>, any redaction rectangle (or none) and any
  profile, the canvas that \<open>generateEvidenceImage\<close> encodes has the width \<open>W\<close> and the
  height \<open>H + 150\<close>, and every pixel of its rows \<open>0\<close> to \<open>H - 3\<close> that no text drawn covers
  is the pixel of the input. (The rows \<open>H - 2\<close> and \<open>H - 1\<close> lie under the border of the
  footer.)
\<close>

theorem evidence_size_and_frame:
  assumes "newContext2d pl" and "0 < width c" and "0 < height c"
  shows "\<exists>out. evidenceCanvas pl c redactionRect profile = Inr (Some out)
     \<and> generateEvidenceImage pl c redactionRect profile = Inr (toDataURL pl out)
     \<and> width out = width c \<and> height out = height c + 150
     \<and> (\<forall>px py. 0 \<le> px \<and> px < int (width c) \<and> 0 \<le> py \<and> py < int (height c) - 2
            \<and> \<not> coveredByText pl c redactionRect profile px py
          \<longrightarrow> bitmap out px py = bitmap c px py)"
proof (cases redactionRect)
  case None
  show ?thesis
    using assms unfolding None generateEvidenceImage_def
    by (simp add: evidenceCanvas_def getContext_def newContextState_def drawImage_def footerAndOverlay_def
        coveredByText_def paint_def boxPixels_def Let_def)
next
  case (Some r)
  show ?thesis
  proof (cases "finiteValue (js_mul (h r) (Num (roundDouble (7 / 10))))")
    case size: None
    show ?thesis
    proof (cases "finiteValue (js_add (x r) (js_div (w r) (Num 2)))")
      case tx: None
      show ?thesis
        using assms unfolding Some generateEvidenceImage_def
        by (simp add: evidenceCanvas_def getContext_def newContextState_def drawImage_def
            footerAndOverlay_def coveredByText_def paint_def boxPixels_def Let_def size tx)
    next
      case tx: (Some fx)
      show ?thesis
      proof (cases "finiteValue (js_add (y r) (js_div (h r) (Num 2)))")
        case ty: None
        show ?thesis
          using assms unfolding Some generateEvidenceImage_def
          by (simp add: evidenceCanvas_def getContext_def newContextState_def drawImage_def
              footerAndOverlay_def coveredByText_def paint_def boxPixels_def Let_def size tx ty)
      next
        case ty: (Some fy)
        show ?thesis
          using assms unfolding Some generateEvidenceImage_def
          by (simp add: evidenceCanvas_def getContext_def newContextState_def drawImage_def
              footerAndOverlay_def coveredByText_def paint_def boxPixels_def Let_def size tx ty)
      qed
    qed
  next
    case size: (Some s)
    show ?thesis
    proof (cases "finiteValue (js_add (x r) (js_div (w r) (Num 2)))")
      case tx: None
      show ?thesis
        using assms unfolding Some generateEvidenceImage_def
        by (simp add: evidenceCanvas_def getContext_def newContextState_def drawImage_def
            footerAndOverlay_def coveredByText_def paint_def boxPixels_def Let_def size tx)
    next
      case tx: (Some fx)
      show ?thesis
      proof (cases "finiteValue (js_add (y r) (js_div (h r) (Num 2)))")
        case ty: None
        show ?thesis
          using assms unfolding Some generateEvidenceImage_def
          by (simp add: evidenceCanvas_def getContext_def newContextState_def drawImage_def
              footerAndOverlay_def coveredByText_def paint_def boxPixels_def Let_def size tx ty)
      next
        case ty: (Some fy)
        show ?thesis
          using assms unfolding Some generateEvidenceImage_def
          by (simp add: evidenceCanvas_def getContext_def newContextState_def drawImage_def
              footerAndOverlay_def coveredByText_def paint_def boxPixels_def Let_def size tx ty)
      qed
    qed
  qed
qed

theorem evidence_size_and_frame_witness:
  "newContext2d boxGlyphs
   \<and> 0 < width (blackRectOnWhite 8 8 \<lparr>x = Num 1, y = Num 1, w = Num 6, h = Num 4\<rparr>)
   \<and> 0 < height (blackRectOnWhite 8 8 \<lparr>x = Num 1, y = Num 1, w = Num 6, h = Num 4\<rparr>)
   \<and> \<not> coveredByText boxGlyphs (blackRectOnWhite 8 8 \<lparr>x = Num 1, y = Num 1, w = Num 6, h = Num 4\<rparr>)
         (Some \<lparr>x = Num 1, y = Num 1, w = Num 6, h = Num 4\<rparr>) exampleProfile 2 1
   \<and> (\<exists>out. evidenceCanvas boxGlyphs
                (blackRectOnWhite 8 8 \<lparr>x = Num 1, y = Num 1, w = Num 6, h = Num 4\<rparr>)
                (Some \<lparr>x = Num 1, y = Num 1, w = Num 6, h = Num 4\<rparr>) exampleProfile = Inr (Some out)
          \<and> width out = 8 \<and> height out = 158
          \<and> bitmap out 2 1 = opaque 0 0 0)"
proof -
  let ?c = "blackRectOnWhite 8 8 \<lparr>x = Num 1, y = Num 1, w = Num 6, h = Num 4\<rparr>"
  let ?r = "Some \<lparr>x = Num 1, y = Num 1, w = Num 6, h = Num 4\<rparr>"
  have p: "newContext2d boxGlyphs"
    by (simp add: boxGlyphs_def)
  have s: "0 < width ?c" "0 < height ?c" "width ?c = 8" "height ?c = 8"
    by (simp_all add: blackRectOnWhite_def)
  have n: "\<not> coveredByText boxGlyphs ?c ?r exampleProfile 2 1"
    by (simp add: coveredByText_def newContextState_def footerAndOverlay_def Let_def boxGlyphs_def
        blackRectOnWhite_def exampleProfile_def paint_def overlay_font_size overlay_centre)
  have b: "bitmap ?c 2 1 = opaque 0 0 0"
    by (simp add: blackRectOnWhite_def insideRect_def)
  from evidence_size_and_frame [OF p s(1,2), of ?r exampleProfile]
  obtain out where o: "evidenceCanvas boxGlyphs ?c ?r exampleProfile = Inr (Some out)"
    "width out = width ?c" "height out = height ?c + 150"
    "\<forall>px py. 0 \<le> px \<and> px < int (width ?c) \<and> 0 \<le> py \<and> py < int (height ?c) - 2
       \<and> \<not> coveredByText boxGlyphs ?c ?r exampleProfile px py
       \<longrightarrow> bitmap out px py = bitmap ?c px py"
    by blast
  from o(4) n have "bitmap out 2 1 = bitmap ?c 2 1"
    by (simp add: s(3,4))
  with o(1,2,3) p s n b show ?thesis
    by simp
qed

end
